theory Spec2Isabelle
  imports Main "HOL-Library.Word"
begin

unbundle bit_operations_syntax

section \<open>The interactive shell of src/shared/shell.c\<close>

text \<open>
  The file keeps its state in statics (\<^verbatim>\<open>data\<close>, \<^verbatim>\<open>main_loop\<close>, the \<^verbatim>\<open>terminated\<close> flag of
  \<^verbatim>\<open>signal_read\<close>, the cursor of \<^verbatim>\<open>cmd_generator\<close>) and in the readline and history
  libraries. Here all of it is one record that every function takes and returns.
  What the code sends outside (text on the terminal, display calls of readline, calls of
  callbacks it was handed, the request to leave the main loop, destroyed io objects) is
  appended to the \<open>events\<close> field in the order the code does it.
\<close>

subsection \<open>Data\<close>

text \<open>
  Macros of headers that are not part of the file: the colour escapes of shell.h and
  \<^verbatim>\<open>VERSION\<close> of config.h. The functions that print take them as a parameter.
\<close>

record config =
  COLOR_OFF :: string
  COLOR_RED :: string
  COLOR_HIGHLIGHT :: string
  VERSION :: string

text \<open>
  The command handlers a menu entry can point to: the three static handlers of the file
  and handlers of the embedding application, which are known by their address only.
\<close>

datatype menu_cb = Cmd_version | Cmd_quit | Cmd_help | External nat

text \<open>
  \<^verbatim>\<open>struct bt_shell_menu_entry\<close>. A table is an array ended by an entry whose \<^verbatim>\<open>cmd\<close> is
  NULL; it is the list of the entries before that one, so \<open>cmd\<close> is never NULL here. The
  other pointers are \<open>None\<close> when NULL.
\<close>

record bt_shell_menu_entry =
  cmd :: string
  arg :: "string option"
  func :: "menu_cb option"
  desc :: "string option"
  gen :: "nat option"
  disp :: "nat option"

datatype io = Io int

datatype rl_call =
    Rl_save_prompt
  | Rl_restore_prompt
  | Rl_redisplay
  | Rl_forced_update_display
  | Rl_message string
  | Rl_crlf
  | Rl_on_new_line
  | Rl_set_prompt string
  | Rl_callback_handler_install
  | Rl_callback_handler_remove

datatype event =
    Stdout string
  | Stderr string
  | Readline rl_call
  | Main_loop_quit
  | Prompt_func nat string "nat option"
  | Menu_func nat "string option"
  | Io_destroy "io option"
  | Main_loop_unref
  | Generator nat string

text \<open>A call through a NULL function pointer, or a read through a NULL table, ends the program.\<close>

datatype error = Null_call | Null_deref

record shell =
  input :: "io option"
  saved_prompt :: bool
  saved_func :: "nat option"
  saved_user_data :: "nat option"
  menu :: "bt_shell_menu_entry list option"
  main_loop :: "bool option"
  terminated :: bool
  gen_entry :: "bt_shell_menu_entry list option"
  gen_index :: nat
  gen_len :: nat
  rl_state_done :: bool
  rl_line_buffer :: string
  rl_point :: nat
  rl_completion_display_matches_hook :: "nat option"
  rl_attempted_completion_over :: bool
  history :: "string list"
  history_offset :: nat
  events :: "event list"

text \<open>
  \<open>main_loop\<close> is \<open>None\<close> for the NULL pointer and \<open>Some r\<close> for a loop whose running flag
  is \<open>r\<close>. The statics start zeroed.
\<close>

definition initial :: shell where
  "initial = \<lparr> input = None, saved_prompt = False, saved_func = None,
     saved_user_data = None, menu = None, main_loop = None, terminated = False,
     gen_entry = None, gen_index = 0, gen_len = 0,
     rl_state_done = False, rl_line_buffer = [], rl_point = 0,
     rl_completion_display_matches_hook = None, rl_attempted_completion_over = False,
     history = [], history_offset = 0, events = [] \<rparr>"

definition emit :: "event \<Rightarrow> shell \<Rightarrow> shell" where
  "emit e s = s\<lparr>events := events s @ [e]\<rparr>"

definition nl :: string where
  "nl = [CHR 0x0A]"

text \<open>The text written to the terminal so far, one element per call of printf.\<close>

fun stdout_of :: "event list \<Rightarrow> string list" where
  "stdout_of [] = []"
| "stdout_of (Stdout t # es) = t # stdout_of es"
| "stdout_of (e # es) = stdout_of es"

fun quits_of :: "event list \<Rightarrow> nat" where
  "quits_of [] = 0"
| "quits_of (Main_loop_quit # es) = Suc (quits_of es)"
| "quits_of (e # es) = quits_of es"

subsection \<open>Library calls\<close>

text \<open>
  \<^verbatim>\<open>g_main_loop_quit(main_loop)\<close>: the request is recorded; a loop that exists stops
  running, the NULL loop is left alone (GLib returns at once).
\<close>

definition g_main_loop_quit :: "shell \<Rightarrow> shell" where
  "g_main_loop_quit s =
     emit Main_loop_quit (case main_loop s of None \<Rightarrow> s | Some r \<Rightarrow> s\<lparr>main_loop := Some False\<rparr>)"

text \<open>\<^verbatim>\<open>rl_replace_line(text, 0)\<close> sets the buffer and keeps the point inside it.\<close>

definition rl_replace_line :: "string \<Rightarrow> shell \<Rightarrow> shell" where
  "rl_replace_line t s = s\<lparr>rl_line_buffer := t, rl_point := min (rl_point s) (length t)\<rparr>"

definition rl_insert_text :: "string \<Rightarrow> shell \<Rightarrow> shell" where
  "rl_insert_text t s =
     s\<lparr>rl_line_buffer := take (rl_point s) (rl_line_buffer s) @ t @ drop (rl_point s) (rl_line_buffer s),
       rl_point := rl_point s + length t\<rparr>"

definition rl :: "rl_call \<Rightarrow> shell \<Rightarrow> shell" where
  "rl c s = emit (Readline c) s"

text \<open>
  \<^verbatim>\<open>printf("%-*s", w, a)\<close>: \<open>a\<close> padded with spaces on the right to \<open>w\<close> columns; a negative
  width counts as its absolute value.
\<close>

definition left_justify :: "int \<Rightarrow> string \<Rightarrow> string" where
  "left_justify w a = a @ replicate (nat \<bar>w\<bar> - length a) CHR '' ''"

text \<open>The macros \<^verbatim>\<open>print_text\<close> and \<^verbatim>\<open>print_menu\<close>.\<close>

definition print_text :: "config \<Rightarrow> string \<Rightarrow> string \<Rightarrow> shell \<Rightarrow> shell" where
  "print_text cfg color t s = emit (Stdout (color @ t @ COLOR_OFF cfg @ nl)) s"

definition CMD_LENGTH :: int where
  "CMD_LENGTH = 48"

definition print_menu :: "config \<Rightarrow> string \<Rightarrow> string \<Rightarrow> string \<Rightarrow> shell \<Rightarrow> shell" where
  "print_menu cfg c a d s =
     emit (Stdout (COLOR_HIGHLIGHT cfg @ c @ '' '' @ left_justify (CMD_LENGTH - int (length c)) a
                   @ '' '' @ COLOR_OFF cfg @ d @ nl)) s"

subsection \<open>The menu and the dispatcher\<close>

definition default_menu :: "bt_shell_menu_entry list" where
  "default_menu =
    [ \<lparr> cmd = ''version'', arg = None, func = Some Cmd_version,
        desc = Some ''Display version'', gen = None, disp = None \<rparr>,
      \<lparr> cmd = ''quit'', arg = None, func = Some Cmd_quit,
        desc = Some ''Quit program'', gen = None, disp = None \<rparr>,
      \<lparr> cmd = ''exit'', arg = None, func = Some Cmd_quit,
        desc = Some ''Quit program'', gen = None, disp = None \<rparr>,
      \<lparr> cmd = ''help'', arg = None, func = Some Cmd_help,
        desc = Some ''Display help about this program'', gen = None, disp = None \<rparr> ]"

definition or_empty :: "string option \<Rightarrow> string" where
  "or_empty x = (case x of None \<Rightarrow> [] | Some t \<Rightarrow> t)"

fun print_entries :: "config \<Rightarrow> bt_shell_menu_entry list \<Rightarrow> shell \<Rightarrow> shell" where
  "print_entries cfg [] s = s"
| "print_entries cfg (e # es) s =
     print_entries cfg es (print_menu cfg (cmd e) (or_empty (arg e)) (or_empty (desc e)) s)"

definition shell_print_menu :: "config \<Rightarrow> shell \<Rightarrow> shell" where
  "shell_print_menu cfg s =
     (case menu s of
        None \<Rightarrow> s
      | Some m \<Rightarrow>
          print_entries cfg default_menu
            (print_entries cfg m
              (print_text cfg (COLOR_HIGHLIGHT cfg) ''-------------------''
                (print_text cfg (COLOR_HIGHLIGHT cfg) ''Available commands:'' s))))"

text \<open>
  \<^verbatim>\<open>bt_shell_printf\<close>, with the formatted text as its argument. While a line is being
  edited (readline is not in the state \<^verbatim>\<open>RL_STATE_DONE\<close>) the line and the point are put
  aside and brought back after the write; the prompt is saved and restored too unless a
  prompt override shows its message.
\<close>

definition bt_shell_printf :: "string \<Rightarrow> shell \<Rightarrow> shell" where
  "bt_shell_printf t s =
     (let save_input = \<not> rl_state_done s;
          saved_point = rl_point s;
          saved_line = rl_line_buffer s;
          s1 = (if save_input \<and> \<not> saved_prompt s
                then rl Rl_redisplay (rl_replace_line [] (rl Rl_save_prompt s))
                else s);
          s2 = emit (Stdout t) s1
      in if save_input
         then rl Rl_forced_update_display
                ((rl_replace_line saved_line
                   (if \<not> saved_prompt s2 then rl Rl_restore_prompt s2 else s2))
                 \<lparr>rl_point := saved_point\<rparr>)
         else s2)"

definition cmd_version :: "config \<Rightarrow> string option \<Rightarrow> shell \<Rightarrow> shell" where
  "cmd_version cfg a s = bt_shell_printf (''Version '' @ VERSION cfg @ nl) s"

definition cmd_quit :: "string option \<Rightarrow> shell \<Rightarrow> shell" where
  "cmd_quit a s = g_main_loop_quit s"

definition cmd_help :: "config \<Rightarrow> string option \<Rightarrow> shell \<Rightarrow> shell" where
  "cmd_help cfg a s = shell_print_menu cfg s"

text \<open>\<^verbatim>\<open>entry->func(arg)\<close>: a handler of the application is recorded as called.\<close>

fun call_func :: "config \<Rightarrow> menu_cb \<Rightarrow> string option \<Rightarrow> shell \<Rightarrow> shell" where
  "call_func cfg Cmd_version a s = cmd_version cfg a s"
| "call_func cfg Cmd_quit a s = cmd_quit a s"
| "call_func cfg Cmd_help a s = cmd_help cfg a s"
| "call_func cfg (External h) a s = emit (Menu_func h a) s"

text \<open>
  One loop of \<^verbatim>\<open>shell_exec\<close>: the first entry of the table with the name \<open>c\<close> and a
  handler; an entry with the name and no handler is passed over.
\<close>

fun find_func :: "string \<Rightarrow> bt_shell_menu_entry list \<Rightarrow> menu_cb option" where
  "find_func c [] = None"
| "find_func c (e # es) =
     (if cmd e \<noteq> c then find_func c es
      else case func e of Some f \<Rightarrow> Some f | None \<Rightarrow> find_func c es)"

definition shell_exec :: "config \<Rightarrow> string option \<Rightarrow> string option \<Rightarrow> shell \<Rightarrow> shell" where
  "shell_exec cfg c a s =
     (case (menu s, c) of
        (Some m, Some n) \<Rightarrow>
          (case find_func n m of
             Some f \<Rightarrow> call_func cfg f a s
           | None \<Rightarrow>
              (case find_func n default_menu of
                 Some f \<Rightarrow> call_func cfg f a s
               | None \<Rightarrow> print_text cfg (COLOR_HIGHLIGHT cfg) ''Invalid command'' s))
      | _ \<Rightarrow> s)"

subsection \<open>The prompt override\<close>

definition bt_shell_prompt_input ::
  "config \<Rightarrow> string \<Rightarrow> string \<Rightarrow> nat option \<Rightarrow> nat option \<Rightarrow> shell \<Rightarrow> shell" where
  "bt_shell_prompt_input cfg label msg f user_data s =
     (if saved_prompt s then s
      else (rl (Rl_message (COLOR_RED cfg @ ''['' @ label @ '']'' @ COLOR_OFF cfg @ '' '' @ msg @ '' ''))
              (rl Rl_save_prompt s))
           \<lparr>saved_prompt := True, saved_func := f, saved_user_data := user_data\<rparr>)"

text \<open>
  \<^verbatim>\<open>bt_shell_release_prompt\<close> returns -1 when no prompt is pending. Otherwise it clears
  the three fields, restores the prompt and calls the saved function, which is a crash
  when that pointer is NULL.
\<close>

definition bt_shell_release_prompt :: "string \<Rightarrow> shell \<Rightarrow> error + (int \<times> shell)" where
  "bt_shell_release_prompt inp s =
     (if \<not> saved_prompt s then Inr (- 1, s)
      else
        let s1 = rl Rl_restore_prompt (s\<lparr>saved_prompt := False\<rparr>);
            f = saved_func s1;
            user_data = saved_user_data s1;
            s2 = s1\<lparr>saved_func := None, saved_user_data := None\<rparr>
        in case f of
             None \<Rightarrow> Inl Null_call
           | Some p \<Rightarrow> Inr (0, emit (Prompt_func p inp user_data) s2))"

subsection \<open>History and tokens\<close>

text \<open>
  \<^verbatim>\<open>history_search(string, -1)\<close> of the history library: from the current position
  towards older entries, the first entry that contains the string; the result is the
  offset of the string in that entry (its last occurrence), the position moves to the
  entry. When no entry contains it the result is -1 and nothing moves.
\<close>

definition line_search :: "string \<Rightarrow> string \<Rightarrow> nat option" where
  "line_search t line =
     (if length line < length t then None
      else List.find (\<lambda>k. take (length t) (drop k line) = t)
             (rev [0 ..< Suc (length line - length t)]))"

fun entries_search :: "string \<Rightarrow> string list \<Rightarrow> nat \<Rightarrow> (nat \<times> nat) option" where
  "entries_search t es 0 =
     (case line_search t (es ! 0) of None \<Rightarrow> None | Some k \<Rightarrow> Some (0, k))"
| "entries_search t es (Suc i) =
     (case line_search t (es ! Suc i) of
        None \<Rightarrow> entries_search t es i
      | Some k \<Rightarrow> Some (Suc i, k))"

definition history_search :: "string \<Rightarrow> shell \<Rightarrow> int \<times> shell" where
  "history_search t s =
     (if t = [] \<or> history s = [] then (- 1, s)
      else case entries_search t (history s) (min (history_offset s) (length (history s) - 1)) of
             None \<Rightarrow> (- 1, s)
           | Some (i, k) \<Rightarrow> (int k, s\<lparr>history_offset := i\<rparr>))"

definition add_history :: "string \<Rightarrow> shell \<Rightarrow> shell" where
  "add_history t s = s\<lparr>history := history s @ [t]\<rparr>"

definition using_history :: "shell \<Rightarrow> shell" where
  "using_history s = s\<lparr>history_offset := length (history s)\<rparr>"

text \<open>
  \<^verbatim>\<open>strtok_r(input, " ", &arg)\<close> on a fresh string: leading delimiters are skipped; when
  nothing is left there is no token. Otherwise the token ends at the next delimiter, that
  one character is overwritten by the terminator, and the save pointer is left just
  after it (at the end of the string when the token reached it).
\<close>

definition strtok_r :: "string \<Rightarrow> char \<Rightarrow> string option \<times> string" where
  "strtok_r str d =
     (let t = dropWhile (\<lambda>c. c = d) str
      in if t = [] then (None, [])
         else (Some (takeWhile (\<lambda>c. c \<noteq> d) t), drop 1 (dropWhile (\<lambda>c. c \<noteq> d) t)))"

subsection \<open>The line handler\<close>

text \<open>Lines 278 to 282: one space at the end of the argument is cut.\<close>

definition strip_arg :: "string \<Rightarrow> string" where
  "strip_arg a = (if length a > 0 \<and> a ! (length a - 1) = CHR '' '' then take (length a - 1) a else a)"

text \<open>Lines 274 to 284 of \<^verbatim>\<open>rl_handler\<close>: the line is cut in two and given to \<^verbatim>\<open>shell_exec\<close>.\<close>

definition rl_handler_exec :: "config \<Rightarrow> string \<Rightarrow> shell \<Rightarrow> shell" where
  "rl_handler_exec cfg inp s =
     (case strtok_r inp CHR '' '' of
        (None, a) \<Rightarrow> s
      | (Some c, a) \<Rightarrow> shell_exec cfg (Some c) (Some (strip_arg a)) s)"

text \<open>Lines 271 and 272: the line is added to the history unless the search answers 0.\<close>

definition rl_handler_history :: "string \<Rightarrow> shell \<Rightarrow> shell" where
  "rl_handler_history inp s =
     (case history_search inp s of
        (h, s1) \<Rightarrow> if h \<noteq> 0 then add_history inp s1 else s1)"

definition rl_handler :: "config \<Rightarrow> string option \<Rightarrow> shell \<Rightarrow> error + shell" where
  "rl_handler cfg input0 s =
     (case input0 of
        None \<Rightarrow> Inr (g_main_loop_quit (rl Rl_crlf (rl Rl_redisplay (rl_insert_text ''quit'' s))))
      | Some inp \<Rightarrow>
          if length inp = 0 then Inr s
          else
            (case bt_shell_release_prompt inp s of
               Inl e \<Rightarrow> Inl e
             | Inr (r, s1) \<Rightarrow>
                 if r = 0 then Inr s1
                 else Inr (rl_handler_exec cfg inp (rl_handler_history inp s1))))"

subsection \<open>The hex dump\<close>

definition hexdigits :: string where
  "hexdigits = ''0123456789abcdef''"

text \<open>\<^verbatim>\<open>isprint\<close> in the C locale: the codes from the space to the tilde.\<close>

definition isprint :: "8 word \<Rightarrow> bool" where
  "isprint b = (0x20 \<le> b \<and> b \<le> 0x7e)"

text \<open>What \<^verbatim>\<open>printf("%s")\<close> reads in a buffer: the characters before the first NUL.\<close>

definition c_string :: "string \<Rightarrow> string" where
  "c_string str = takeWhile (\<lambda>c. c \<noteq> CHR 0x00) str"

text \<open>
  The first loop of \<^verbatim>\<open>bt_shell_hexdump\<close>; the list is what is left of \<^verbatim>\<open>buf\<close> from index
  \<open>i\<close> on, \<open>str\<close> is the row buffer of 68 characters.
\<close>

fun hexdump_loop :: "8 word list \<Rightarrow> nat \<Rightarrow> string \<Rightarrow> shell \<Rightarrow> string \<times> shell" where
  "hexdump_loop [] i str s = (str, s)"
| "hexdump_loop (b # bs) i str s =
     (let str1 = str[(i mod 16) * 3 + 1 := CHR '' '',
                     (i mod 16) * 3 + 2 := hexdigits ! unat (drop_bit 4 b),
                     (i mod 16) * 3 + 3 := hexdigits ! unat (b AND 0xf),
                     (i mod 16) + 51 := (if isprint b then char_of (unat b) else CHR ''.'')]
      in if (i + 1) mod 16 = 0
         then
           let str2 = str1[49 := CHR '' '', 50 := CHR '' '', 67 := CHR 0x00];
               s1 = bt_shell_printf (c_string str2 @ nl) s
           in hexdump_loop bs (i + 1) (str2[0 := CHR '' '']) s1
         else hexdump_loop bs (i + 1) str1 s)"

text \<open>The second loop: the columns of the last row that have no byte are blanked.\<close>

definition hexdump_pad :: "nat \<Rightarrow> string \<Rightarrow> string" where
  "hexdump_pad i str =
     fold (\<lambda>j t. t[j * 3 + 1 := CHR '' '', j * 3 + 2 := CHR '' '', j * 3 + 3 := CHR '' '',
                   j + 51 := CHR '' ''])
          [i mod 16 ..< 16] str"

text \<open>
  \<^verbatim>\<open>bt_shell_hexdump(buf, len)\<close> with \<open>len\<close> the length of the list. The row buffer is
  not initialised by the code; \<open>str0\<close> is what the 68 cells hold at entry.
\<close>

definition hexdump_from :: "string \<Rightarrow> 8 word list \<Rightarrow> shell \<Rightarrow> shell" where
  "hexdump_from str0 buf s =
     (if length buf = 0 then s
      else
        let (str, s1) = hexdump_loop buf 0 (str0[0 := CHR '' '']) s;
            i = length buf
        in if i mod 16 > 0
           then bt_shell_printf
                  (c_string ((hexdump_pad i str)[49 := CHR '' '', 50 := CHR '' '', 67 := CHR 0x00]) @ nl) s1
           else s1)"

definition bt_shell_hexdump :: "8 word list \<Rightarrow> shell \<Rightarrow> shell" where
  "bt_shell_hexdump buf s = hexdump_from (replicate 68 (CHR 0x00)) buf s"

subsection \<open>Completion\<close>

text \<open>
  The loop of \<^verbatim>\<open>cmd_generator\<close> over the entries from \<open>index\<close> on: the index moves past
  every entry looked at, and the first name that agrees with \<open>text\<close> on \<open>len\<close> characters is
  returned.
\<close>

fun generator_scan :: "bt_shell_menu_entry list \<Rightarrow> nat \<Rightarrow> string \<Rightarrow> nat \<Rightarrow> string option \<times> nat" where
  "generator_scan [] index t len = (None, index)"
| "generator_scan (e # es) index t len =
     (if take len (cmd e) = take len t then (Some (cmd e), Suc index)
      else generator_scan es (Suc index) t len)"

definition generator_while :: "string \<Rightarrow> shell \<Rightarrow> error + (string option \<times> shell)" where
  "generator_while t s =
     (case gen_entry s of
        None \<Rightarrow> Inl Null_deref
      | Some tab \<Rightarrow>
          (case generator_scan (drop (gen_index s) tab) (gen_index s) t (gen_len s) of
             (r, index) \<Rightarrow> Inr (r, s\<lparr>gen_index := index\<rparr>)))"

definition cmd_generator :: "string \<Rightarrow> int \<Rightarrow> shell \<Rightarrow> error + (string option \<times> shell)" where
  "cmd_generator t state s =
     (let s0 = (if state = 0
                then s\<lparr>gen_entry := Some default_menu, gen_index := 0, gen_len := length t\<rparr>
                else s)
      in case generator_while t s0 of
           Inl e \<Rightarrow> Inl e
         | Inr (Some c, s1) \<Rightarrow> Inr (Some c, s1)
         | Inr (None, s1) \<Rightarrow>
             if state \<noteq> 0 then Inr (None, s1)
             else generator_while t (s1\<lparr>gen_entry := menu s1, gen_index := 0\<rparr>))"

text \<open>
  \<^verbatim>\<open>rl_completion_matches(text, cmd_generator)\<close> of readline calls the generator with the
  states 0, 1, 2 and so on until it answers NULL, and has no matches when the first
  answer is NULL. The number of calls is bounded by \<open>n\<close>; the caller gives a bound that
  the tables cannot reach.
\<close>

fun generator_calls :: "nat \<Rightarrow> string \<Rightarrow> int \<Rightarrow> shell \<Rightarrow> error + (string list \<times> shell)" where
  "generator_calls 0 t state s = Inr ([], s)"
| "generator_calls (Suc n) t state s =
     (case cmd_generator t state s of
        Inl e \<Rightarrow> Inl e
      | Inr (None, s1) \<Rightarrow> Inr ([], s1)
      | Inr (Some c, s1) \<Rightarrow>
          (case generator_calls n t (state + 1) s1 of
             Inl e \<Rightarrow> Inl e
           | Inr (cs, s2) \<Rightarrow> Inr (c # cs, s2)))"

text \<open>
  \<^verbatim>\<open>rl_completion_matches(text, entry->gen)\<close> for a generator of the application: the call
  is recorded, \<open>G g text\<close> are the candidates that generator \<open>g\<close> produces for \<open>text\<close>, and
  the result is NULL when there are none.
\<close>

definition rl_completion_matches ::
  "(nat \<Rightarrow> string \<Rightarrow> string list) \<Rightarrow> string \<Rightarrow> nat \<Rightarrow> shell \<Rightarrow> string list option \<times> shell" where
  "rl_completion_matches G t g s =
     ((if G g t = [] then None else Some (G g t)), emit (Generator g t) s)"

text \<open>
  The loop of \<^verbatim>\<open>menu_completion\<close> over a table. The function itself starts the loop at
  \<^verbatim>\<open>data.menu\<close>, whatever table it was given.
\<close>

fun menu_completion_for ::
  "(nat \<Rightarrow> string \<Rightarrow> string list) \<Rightarrow> bt_shell_menu_entry list \<Rightarrow> string \<Rightarrow> string \<Rightarrow> shell
     \<Rightarrow> string list option \<times> shell" where
  "menu_completion_for G [] t input_cmd s = (None, s)"
| "menu_completion_for G (e # es) t input_cmd s =
     (if cmd e \<noteq> input_cmd then menu_completion_for G es t input_cmd s
      else case gen e of
             None \<Rightarrow> menu_completion_for G es t input_cmd s
           | Some g \<Rightarrow>
               rl_completion_matches G t g (s\<lparr>rl_completion_display_matches_hook := disp e\<rparr>))"

definition menu_completion ::
  "(nat \<Rightarrow> string \<Rightarrow> string list) \<Rightarrow> bt_shell_menu_entry list option \<Rightarrow> string \<Rightarrow> string \<Rightarrow> shell
     \<Rightarrow> error + (string list option \<times> shell)" where
  "menu_completion G entry t input_cmd s =
     (case menu s of
        None \<Rightarrow> Inl Null_deref
      | Some m \<Rightarrow> Inr (menu_completion_for G m t input_cmd s))"

definition shell_completion ::
  "(nat \<Rightarrow> string \<Rightarrow> string list) \<Rightarrow> string \<Rightarrow> int \<Rightarrow> int \<Rightarrow> shell
     \<Rightarrow> error + (string list option \<times> shell)" where
  "shell_completion G t start end0 s =
     (case menu s of
        None \<Rightarrow> Inr (None, s)
      | Some m \<Rightarrow>
          (let r =
            (if start > 0
             then
               (let input_cmd = take (nat (start - 1)) (rl_line_buffer s)
                in (case menu_completion G (Some default_menu) t input_cmd s of
                      Inl e \<Rightarrow> Inl e
                    | Inr (Some ms, s1) \<Rightarrow> Inr (Some ms, s1)
                    | Inr (None, s1) \<Rightarrow> menu_completion G (menu s1) t input_cmd s1))
             else
               (case generator_calls (Suc (length default_menu + length m)) t 0
                       (s\<lparr>rl_completion_display_matches_hook := None\<rparr>) of
                  Inl e \<Rightarrow> Inl e
                | Inr (cs, s1) \<Rightarrow> Inr ((if cs = [] then None else Some cs), s1)))
           in (case r of
                 Inl e \<Rightarrow> Inl e
               | Inr (None, s1) \<Rightarrow> Inr (None, s1\<lparr>rl_attempted_completion_over := True\<rparr>)
               | Inr (Some ms, s1) \<Rightarrow> Inr (Some ms, s1))))"

subsection \<open>Signals and the input\<close>

definition io_hup :: "shell \<Rightarrow> bool \<times> shell" where
  "io_hup s = (False, g_main_loop_quit s)"

definition SIGINT :: "32 word" where
  "SIGINT = 2"

definition SIGTERM :: "32 word" where
  "SIGTERM = 15"

text \<open>The case \<^verbatim>\<open>SIGTERM\<close> of the switch, which the case \<^verbatim>\<open>SIGINT\<close> falls into.\<close>

definition signal_terminate :: "shell \<Rightarrow> shell" where
  "signal_terminate s =
     (if \<not> terminated s
      then g_main_loop_quit (rl Rl_crlf (rl_replace_line [] s))
      else s)\<lparr>terminated := True\<rparr>"

text \<open>
  \<^verbatim>\<open>signal_read\<close>: \<open>si\<close> is the signal number of the record that was read, \<open>None\<close> when
  \<^verbatim>\<open>read\<close> did not give a whole record. The function returns false on every path; what
  the io layer makes of that value is outside the file.
\<close>

definition signal_read :: "32 word option \<Rightarrow> shell \<Rightarrow> bool \<times> shell" where
  "signal_read si s =
     (case si of
        None \<Rightarrow> (False, s)
      | Some signo \<Rightarrow>
          if signo = SIGINT then
            (if input s \<noteq> None
             then (False, rl Rl_redisplay (rl Rl_on_new_line (rl Rl_crlf (rl_replace_line [] s))))
             else (False, signal_terminate s))
          else if signo = SIGTERM then (False, signal_terminate s)
          else (False, s))"

text \<open>
  \<^verbatim>\<open>setup_signalfd\<close>. The outcome of the two system calls comes from outside: a failure
  carries the text that \<^verbatim>\<open>strerror\<close> gives for \<^verbatim>\<open>errno\<close>, which \<^verbatim>\<open>perror\<close> writes after the
  message, a colon and a space, and before a newline.
\<close>

datatype signalfd_result = Sigprocmask_failed string | Signalfd_failed string | Signalfd int

definition perror :: "string \<Rightarrow> string \<Rightarrow> shell \<Rightarrow> shell" where
  "perror msg err s = emit (Stderr (msg @ '': '' @ err @ nl)) s"

definition setup_signalfd :: "signalfd_result \<Rightarrow> shell \<Rightarrow> io option \<times> shell" where
  "setup_signalfd r s =
     (case r of
        Sigprocmask_failed err \<Rightarrow> (None, perror ''Failed to set signal mask'' err s)
      | Signalfd_failed err \<Rightarrow> (None, perror ''Failed to create signal descriptor'' err s)
      | Signalfd fd \<Rightarrow> (Some (Io fd), s))"

definition rl_init :: "shell \<Rightarrow> shell" where
  "rl_init s = rl Rl_callback_handler_install s"

datatype option_parse = Parse_failed "string option" | Parsed bool

text \<open>\<^verbatim>\<open>bt_shell_init\<close>; the left results are the exit codes of the paths that call \<^verbatim>\<open>exit\<close>.\<close>

definition bt_shell_init :: "config \<Rightarrow> option_parse \<Rightarrow> shell \<Rightarrow> (int \<times> shell) + shell" where
  "bt_shell_init cfg p s =
     (case p of
        Parse_failed (Some msg) \<Rightarrow> Inl (1, emit (Stderr (msg @ nl)) s)
      | Parse_failed None \<Rightarrow> Inl (1, emit (Stderr (''An unknown error occurred'' @ nl)) s)
      | Parsed option_version \<Rightarrow>
          if option_version then Inl (0, emit (Stdout (VERSION cfg @ nl)) s)
          else Inr (rl_init (s\<lparr>main_loop := Some False\<rparr>)))"

definition rl_cleanup :: "shell \<Rightarrow> shell" where
  "rl_cleanup s = rl Rl_callback_handler_remove (rl (Rl_message []) s)"

definition bt_shell_set_menu :: "bt_shell_menu_entry list option \<Rightarrow> shell \<Rightarrow> bool \<times> shell" where
  "bt_shell_set_menu m s =
     (if menu s \<noteq> None \<or> m = None then (False, s)
      else (True, s\<lparr>menu := m\<rparr>))"

definition bt_shell_set_prompt :: "string \<Rightarrow> shell \<Rightarrow> shell" where
  "bt_shell_set_prompt str s =
     (if main_loop s = None then s
      else rl Rl_redisplay (rl Rl_on_new_line (emit (Stdout [CHR 0x0D]) (rl (Rl_set_prompt str) s))))"

definition bt_shell_attach :: "int \<Rightarrow> shell \<Rightarrow> bool \<times> shell" where
  "bt_shell_attach fd s =
     (if input s \<noteq> None then (False, s)
      else (True, s\<lparr>input := Some (Io fd)\<rparr>))"

definition bt_shell_detach :: "shell \<Rightarrow> bool \<times> shell" where
  "bt_shell_detach s =
     (if input s = None then (False, s)
      else (True, (emit (Io_destroy (input s)) s)\<lparr>input := None\<rparr>))"

text \<open>
  \<^verbatim>\<open>rl_callback_read_char\<close> of readline, as far as the file depends on it: a key either
  edits the line, or ends it. An ended line (NULL at the end of the stream) goes to the
  handler installed by \<^verbatim>\<open>rl_init\<close> while readline is in the state \<^verbatim>\<open>RL_STATE_DONE\<close>;
  afterwards readline starts a new empty line with the history position at the end.
\<close>

datatype rl_key = Edit string nat | Accept "string option"

definition rl_callback_read_char :: "config \<Rightarrow> rl_key \<Rightarrow> shell \<Rightarrow> error + shell" where
  "rl_callback_read_char cfg k s =
     (case k of
        Edit b p \<Rightarrow> Inr (s\<lparr>rl_line_buffer := b, rl_point := min p (length b)\<rparr>)
      | Accept l \<Rightarrow>
          (case rl_handler cfg l (s\<lparr>rl_state_done := True\<rparr>) of
             Inl e \<Rightarrow> Inl e
           | Inr s1 \<Rightarrow>
               Inr (using_history (s1\<lparr>rl_state_done := False, rl_line_buffer := [], rl_point := 0\<rparr>))))"

definition input_read :: "config \<Rightarrow> rl_key \<Rightarrow> shell \<Rightarrow> error + (bool \<times> shell)" where
  "input_read cfg k s =
     (case rl_callback_read_char cfg k s of Inl e \<Rightarrow> Inl e | Inr s1 \<Rightarrow> Inr (True, s1))"

subsection \<open>The run loop\<close>

text \<open>
  What the main loop does in one iteration is decided outside the file: it calls one of
  the callbacks the file registered, or code of the application, which can call the
  public functions of the file.
\<close>

datatype dispatch =
    On_input rl_key
  | On_signal "32 word option"
  | On_hup
  | Call_printf string
  | Call_hexdump "8 word list"
  | Call_prompt_input string string "nat option" "nat option"
  | Call_release_prompt string
  | Call_set_menu "bt_shell_menu_entry list option"
  | Call_set_prompt string
  | Call_attach int
  | Call_detach

fun iterate :: "config \<Rightarrow> dispatch \<Rightarrow> shell \<Rightarrow> error + shell" where
  "iterate cfg (On_input k) s =
     (case input_read cfg k s of Inl e \<Rightarrow> Inl e | Inr (r, s1) \<Rightarrow> Inr s1)"
| "iterate cfg (On_signal si) s = Inr (snd (signal_read si s))"
| "iterate cfg On_hup s = Inr (snd (io_hup s))"
| "iterate cfg (Call_printf t) s = Inr (bt_shell_printf t s)"
| "iterate cfg (Call_hexdump buf) s = Inr (bt_shell_hexdump buf s)"
| "iterate cfg (Call_prompt_input label msg f u) s = Inr (bt_shell_prompt_input cfg label msg f u s)"
| "iterate cfg (Call_release_prompt t) s =
     (case bt_shell_release_prompt t s of Inl e \<Rightarrow> Inl e | Inr (r, s1) \<Rightarrow> Inr s1)"
| "iterate cfg (Call_set_menu m) s = Inr (snd (bt_shell_set_menu m s))"
| "iterate cfg (Call_set_prompt t) s = Inr (bt_shell_set_prompt t s)"
| "iterate cfg (Call_attach fd) s = Inr (snd (bt_shell_attach fd s))"
| "iterate cfg Call_detach s = Inr (snd (bt_shell_detach s))"

text \<open>
  The loop of \<^verbatim>\<open>g_main_loop_run\<close>: it iterates while the loop is marked running. The list
  is what the outside world makes it do; when the list ends and nothing has stopped the
  loop, the loop waits for ever and the result is \<open>None\<close>.
\<close>

fun main_loop_iterate :: "config \<Rightarrow> dispatch list \<Rightarrow> shell \<Rightarrow> (error + shell) option" where
  "main_loop_iterate cfg [] s =
     (if main_loop s \<noteq> Some True then Some (Inr s) else None)"
| "main_loop_iterate cfg (d # ds) s =
     (if main_loop s \<noteq> Some True then Some (Inr s)
      else (case iterate cfg d s of
              Inl e \<Rightarrow> Some (Inl e)
            | Inr s1 \<Rightarrow> main_loop_iterate cfg ds s1))"

text \<open>\<^verbatim>\<open>g_main_loop_run(main_loop)\<close>: nothing for the NULL loop.\<close>

definition g_main_loop_run :: "config \<Rightarrow> dispatch list \<Rightarrow> shell \<Rightarrow> (error + shell) option" where
  "g_main_loop_run cfg ds s =
     (case main_loop s of
        None \<Rightarrow> Some (Inr s)
      | Some r \<Rightarrow> main_loop_iterate cfg ds (s\<lparr>main_loop := Some True\<rparr>))"

text \<open>The statements of \<^verbatim>\<open>bt_shell_run\<close> after the loop has returned.\<close>

definition bt_shell_run_exit :: "io option \<Rightarrow> shell \<Rightarrow> error + shell" where
  "bt_shell_run_exit signal s =
     (case bt_shell_release_prompt [] s of
        Inl e \<Rightarrow> Inl e
      | Inr (r, s1) \<Rightarrow>
          let s2 = snd (bt_shell_detach s1);
              s3 = emit (Io_destroy signal) s2;
              s4 = (emit Main_loop_unref s3)\<lparr>main_loop := None\<rparr>
          in Inr (rl_cleanup s4))"

definition bt_shell_run ::
  "config \<Rightarrow> signalfd_result \<Rightarrow> dispatch list \<Rightarrow> shell \<Rightarrow> (error + shell) option" where
  "bt_shell_run cfg r ds s =
     (case setup_signalfd r s of
        (signal, s0) \<Rightarrow>
          (case g_main_loop_run cfg ds s0 of
             None \<Rightarrow> None
           | Some (Inl e) \<Rightarrow> Some (Inl e)
           | Some (Inr s1) \<Rightarrow> Some (bt_shell_run_exit signal s1)))"

subsection \<open>Calls in sequence, and a concrete configuration\<close>

text \<open>\<^verbatim>\<open>bt_shell_set_menu\<close> called with each table of a list in turn, with the results.\<close>

fun set_menu_calls :: "bt_shell_menu_entry list option list \<Rightarrow> shell \<Rightarrow> bool list \<times> shell" where
  "set_menu_calls [] s = ([], s)"
| "set_menu_calls (m # ms) s =
     (case bt_shell_set_menu m s of
        (r, s1) \<Rightarrow> (case set_menu_calls ms s1 of (rs, s2) \<Rightarrow> (r # rs, s2)))"

text \<open>\<^verbatim>\<open>signal_read\<close> called for each record of a list in turn.\<close>

fun signal_reads :: "32 word option list \<Rightarrow> shell \<Rightarrow> shell" where
  "signal_reads [] s = s"
| "signal_reads (si # sis) s = signal_reads sis (snd (signal_read si s))"

text \<open>Sample values of the macros, for the evaluations on concrete inputs.\<close>

definition cfg0 :: config where
  "cfg0 = \<lparr> COLOR_OFF = CHR 0x1B # ''[0m'', COLOR_RED = CHR 0x1B # ''[0;91m'',
            COLOR_HIGHLIGHT = CHR 0x1B # ''[1;39m'', VERSION = ''5.47'' \<rparr>"

subsection \<open>The rows of a dump\<close>

text \<open>
  What a dump is expected to print, for the proofs: the character of a byte in the last
  column, the four cells that a byte fills in the row buffer, the row printed for up to 16
  bytes position by position, and the bytes of a buffer cut in rows of 16.
\<close>

definition ascii_of :: "8 word \<Rightarrow> char" where
  "ascii_of b = (if isprint b then char_of (unat b) else CHR ''.'')"

definition cells_of :: "8 word list \<Rightarrow> nat \<Rightarrow> string" where
  "cells_of c j =
     (if j < length c
      then [CHR '' '', hexdigits ! unat (drop_bit 4 (c ! j)), hexdigits ! unat (c ! j AND 0xf),
            ascii_of (c ! j)]
      else ''    '')"

definition row_inv :: "string \<Rightarrow> 8 word list \<Rightarrow> nat \<Rightarrow> bool" where
  "row_inv str c n =
     (length str = 68 \<and> str ! 0 = CHR '' '' \<and>
      (\<forall>j < n. [str ! (j * 3 + 1), str ! (j * 3 + 2), str ! (j * 3 + 3), str ! (j + 51)] = cells_of c j))"

definition row_char :: "8 word list \<Rightarrow> nat \<Rightarrow> char" where
  "row_char c p =
     (if p = 0 then CHR '' ''
      else if p < 49 then cells_of c ((p - 1) div 3) ! ((p - 1) mod 3)
      else if p < 51 then CHR '' ''
      else cells_of c (p - 51) ! 3)"

definition hex_row :: "8 word list \<Rightarrow> string" where
  "hex_row c = map (row_char c) [0 ..< 67]"

fun full_rows :: "8 word list \<Rightarrow> 8 word list \<Rightarrow> 8 word list list" where
  "full_rows c [] = []"
| "full_rows c (b # bs) =
     (if Suc (length c) = 16 then (c @ [b]) # full_rows [] bs else full_rows (c @ [b]) bs)"

fun pending :: "8 word list \<Rightarrow> 8 word list \<Rightarrow> 8 word list" where
  "pending c [] = c"
| "pending c (b # bs) = (if Suc (length c) = 16 then pending [] bs else pending (c @ [b]) bs)"

definition all_rows :: "8 word list \<Rightarrow> 8 word list \<Rightarrow> 8 word list list" where
  "all_rows c bs = full_rows c bs @ (if pending c bs = [] then [] else [pending c bs])"

text \<open>A record that makes \<^verbatim>\<open>signal_read\<close> take the terminating path in the state \<open>s\<close>.\<close>

definition terminating :: "shell \<Rightarrow> 32 word option \<Rightarrow> bool" where
  "terminating s si = (si = Some SIGTERM \<or> (si = Some SIGINT \<and> input s = None))"


section \<open>Properties\<close>

subsection \<open>Traces\<close>

lemma quits_of_append: "quits_of (a @ b) = quits_of a + quits_of b"
  by (induction a rule: quits_of.induct) simp_all

lemma stdout_of_append: "stdout_of (a @ b) = stdout_of a @ stdout_of b"
  by (induction a rule: stdout_of.induct) simp_all

subsection \<open>The menu is attached once\<close>

lemma set_menu_calls_attached:
  "menu s \<noteq> None \<Longrightarrow> set_menu_calls ms s = (replicate (length ms) False, s)"
  by (induction ms) (auto simp: bt_shell_set_menu_def)

lemma set_menu_calls_count:
  "length (filter id (fst (set_menu_calls ms s))) \<le> 1"
proof (induction ms arbitrary: s)
  case Nil
  then show ?case by simp
next
  case (Cons m ms)
  show ?case
  proof (cases "menu s \<noteq> None \<or> m = None")
    case True
    then have "bt_shell_set_menu m s = (False, s)"
      by (simp add: bt_shell_set_menu_def)
    with Cons.IH [of s] show ?thesis
      by (cases "set_menu_calls ms s") simp
  next
    case False
    then have "bt_shell_set_menu m s = (True, s\<lparr>menu := m\<rparr>)" and "menu (s\<lparr>menu := m\<rparr>) \<noteq> None"
      by (simp_all add: bt_shell_set_menu_def)
    then show ?thesis
      by (simp add: set_menu_calls_attached)
  qed
qed

text \<open>
  C6, amended. \<^verbatim>\<open>bt_shell_set_menu\<close> succeeds at most once: in any sequence of calls at
  most one returns true; a call made when a table is attached, or with the NULL pointer
  as its argument, returns false and changes nothing; once a table is attached no further
  call replaces it. A call made while no table is attached, with any table that is not
  the NULL pointer, a table without entries too, returns true and attaches that table.
\<close>

theorem set_menu_once:
  "length (filter id (fst (set_menu_calls ms s))) \<le> 1
   \<and> (menu s \<noteq> None \<or> m = None \<longrightarrow> bt_shell_set_menu m s = (False, s))
   \<and> (menu s = None \<and> m \<noteq> None \<longrightarrow> bt_shell_set_menu m s = (True, s\<lparr>menu := m\<rparr>))
   \<and> (menu s \<noteq> None \<longrightarrow> menu (snd (set_menu_calls ms s)) = menu s)"
  using set_menu_calls_count [of ms s]
  by (auto simp: set_menu_calls_attached bt_shell_set_menu_def)

theorem set_menu_once_witness:
  "fst (set_menu_calls [None, Some default_menu, Some [], None] initial)
     = [False, True, False, False]
   \<and> menu (snd (set_menu_calls [None, Some default_menu, Some [], None] initial))
       = Some default_menu
   \<and> length (filter id (fst (set_menu_calls [None, Some default_menu, Some [], None] initial))) \<le> 1
   \<and> menu (snd (set_menu_calls [Some [], None] (initial\<lparr>menu := Some default_menu\<rparr>)))
       = Some default_menu
   \<and> bt_shell_set_menu (Some []) (initial\<lparr>menu := Some default_menu\<rparr>)
       = (False, initial\<lparr>menu := Some default_menu\<rparr>)
   \<and> bt_shell_set_menu None initial = (False, initial)
   \<and> bt_shell_set_menu (Some default_menu) initial = (True, initial\<lparr>menu := Some default_menu\<rparr>)"
proof -
  have a: "menu initial = None"
    by (simp add: initial_def)
  have b: "menu (initial\<lparr>menu := Some default_menu\<rparr>) \<noteq> None"
    by simp
  have c: "bt_shell_set_menu (Some default_menu) initial = (True, initial\<lparr>menu := Some default_menu\<rparr>)"
    using set_menu_once [THEN conjunct2, THEN conjunct2, THEN conjunct1, of initial "Some default_menu"] a
    by simp
  have d: "bt_shell_set_menu None initial = (False, initial)"
    using set_menu_once [THEN conjunct2, THEN conjunct1, of initial None]
    by simp
  have e: "bt_shell_set_menu m (initial\<lparr>menu := Some default_menu\<rparr>)
             = (False, initial\<lparr>menu := Some default_menu\<rparr>)" for m
    using set_menu_once [THEN conjunct2, THEN conjunct1, of "initial\<lparr>menu := Some default_menu\<rparr>" m] b
    by blast
  have f: "menu (snd (set_menu_calls [Some [], None] (initial\<lparr>menu := Some default_menu\<rparr>)))
       = Some default_menu"
    using set_menu_once [THEN conjunct2, THEN conjunct2, THEN conjunct2, rule_format, OF b,
        of "[Some [], None]"]
    by simp
  have g: "length (filter id (fst (set_menu_calls [None, Some default_menu, Some [], None] initial))) \<le> 1"
    using set_menu_once [THEN conjunct1] .
  show ?thesis
    using f g by (simp add: c d e)
qed

text \<open>
  C6 as it was stated fails for an argument that is an empty table: in the initial state,
  where no table is attached, the call with a table that has no entries returns true and
  attaches it. The code tests the pointer only.
\<close>

theorem set_menu_empty_table_counterexample:
  "menu initial = None
   \<and> bt_shell_set_menu (Some []) initial = (True, initial\<lparr>menu := Some []\<rparr>)"
  by (simp add: bt_shell_set_menu_def initial_def)

subsection \<open>Signals\<close>

lemma signal_read_input: "input (snd (signal_read si s)) = input s"
  by (auto simp: signal_read_def signal_terminate_def g_main_loop_quit_def rl_def emit_def
      rl_replace_line_def split: option.splits)

lemma signal_read_terminated:
  "terminated s \<Longrightarrow>
     terminated (snd (signal_read si s))
     \<and> quits_of (events (snd (signal_read si s))) = quits_of (events s)"
  by (auto simp: signal_read_def signal_terminate_def rl_def emit_def
      rl_replace_line_def quits_of_append split: option.splits)

lemma signal_read_running:
  "\<not> terminated s \<Longrightarrow>
     terminated (snd (signal_read si s)) = terminating s si
     \<and> quits_of (events (snd (signal_read si s)))
         = quits_of (events s) + (if terminating s si then 1 else 0)"
  by (auto simp: signal_read_def signal_terminate_def g_main_loop_quit_def rl_def emit_def
      rl_replace_line_def quits_of_append terminating_def SIGINT_def SIGTERM_def
      split: option.splits)

lemma signal_reads_terminated:
  "terminated s \<Longrightarrow> quits_of (events (signal_reads sis s)) = quits_of (events s)"
  by (induction sis arbitrary: s) (simp_all add: signal_read_terminated)

lemma signal_reads_running:
  "\<not> terminated s \<Longrightarrow>
     quits_of (events (signal_reads sis s))
       = quits_of (events s) + (if \<exists>si \<in> set sis. terminating s si then 1 else 0)"
proof (induction sis arbitrary: s)
  case Nil
  then show ?case by simp
next
  case (Cons si sis)
  let ?s1 = "snd (signal_read si s)"
  have same: "terminating ?s1 = terminating s"
    by (simp add: terminating_def signal_read_input fun_eq_iff)
  show ?case
  proof (cases "terminating s si")
    case True
    with Cons.prems have "terminated ?s1" and "quits_of (events ?s1) = quits_of (events s) + 1"
      by (simp_all add: signal_read_running)
    with True show ?thesis
      by (simp add: signal_reads_terminated)
  next
    case False
    with Cons.prems have "\<not> terminated ?s1" and "quits_of (events ?s1) = quits_of (events s)"
      by (simp_all add: signal_read_running)
    with False Cons.IH [of ?s1] same show ?thesis
      by simp
  qed
qed

text \<open>
  C9. Over every sequence of signal records given to \<^verbatim>\<open>signal_read\<close>, starting before
  any termination, the main loop is asked to quit exactly once when the sequence holds a
  terminate record or an interrupt record while no input is bound, and not at all
  otherwise; once terminated, no record asks again. An interrupt while no input is bound
  does what a terminate does. An interrupt while an input is bound empties the line being
  edited and redraws, and neither quits nor marks the shell terminated.
\<close>

theorem signal_idempotence:
  "(\<not> terminated s \<longrightarrow>
      quits_of (events (signal_reads sis s))
        = quits_of (events s)
          + (if \<exists>si \<in> set sis. si = Some SIGTERM \<or> (si = Some SIGINT \<and> input s = None)
             then 1 else 0))
   \<and> (terminated s \<longrightarrow> quits_of (events (signal_reads sis s)) = quits_of (events s))
   \<and> (input s = None \<longrightarrow> signal_read (Some SIGINT) s = signal_read (Some SIGTERM) s)
   \<and> (input s \<noteq> None \<longrightarrow>
        signal_read (Some SIGINT) s
          = (False, s\<lparr>rl_line_buffer := [], rl_point := 0,
                      events := events s @ [Readline Rl_crlf, Readline Rl_on_new_line,
                                            Readline Rl_redisplay]\<rparr>))"
proof (intro conjI impI)
  assume "\<not> terminated s"
  then show "quits_of (events (signal_reads sis s))
        = quits_of (events s)
          + (if \<exists>si \<in> set sis. si = Some SIGTERM \<or> (si = Some SIGINT \<and> input s = None)
             then 1 else 0)"
    using signal_reads_running [of s sis] by (simp add: terminating_def)
next
  assume "terminated s"
  then show "quits_of (events (signal_reads sis s)) = quits_of (events s)"
    by (rule signal_reads_terminated)
next
  assume "input s = None"
  then show "signal_read (Some SIGINT) s = signal_read (Some SIGTERM) s"
    by (simp add: signal_read_def)
next
  assume "input s \<noteq> None"
  then show "signal_read (Some SIGINT) s
          = (False, s\<lparr>rl_line_buffer := [], rl_point := 0,
                      events := events s @ [Readline Rl_crlf, Readline Rl_on_new_line,
                                            Readline Rl_redisplay]\<rparr>)"
    by (simp add: signal_read_def rl_def emit_def rl_replace_line_def)
qed

theorem signal_idempotence_witness:
  "quits_of (events (signal_reads [Some SIGTERM, Some SIGINT, Some SIGTERM] initial)) = 1
   \<and> quits_of (events (signal_reads [Some SIGTERM, Some SIGINT] (initial\<lparr>terminated := True\<rparr>))) = 0
   \<and> signal_read (Some SIGINT) initial = signal_read (Some SIGTERM) initial
   \<and> signal_read (Some SIGINT) (initial\<lparr>input := Some (Io 0)\<rparr>)
       = (False, initial\<lparr>input := Some (Io 0), rl_line_buffer := [], rl_point := 0,
            events := [Readline Rl_crlf, Readline Rl_on_new_line, Readline Rl_redisplay]\<rparr>)"
proof -
  have a: "\<not> terminated initial" and b: "input initial = None" and c: "events initial = []"
    by (simp_all add: initial_def)
  have d: "input (initial\<lparr>input := Some (Io 0)\<rparr>) \<noteq> None"
    by simp
  have e: "events (initial\<lparr>input := Some (Io 0)\<rparr>) = []"
    by (simp add: initial_def)
  have t: "terminated (initial\<lparr>terminated := True\<rparr>)"
    and te: "events (initial\<lparr>terminated := True\<rparr>) = []"
    by (simp_all add: initial_def)
  have "quits_of (events (signal_reads [Some SIGTERM, Some SIGINT, Some SIGTERM] initial)) = 1"
    using signal_idempotence [THEN conjunct1, of initial "[Some SIGTERM, Some SIGINT, Some SIGTERM]"] a c
    by simp
  moreover have "quits_of (events (signal_reads [Some SIGTERM, Some SIGINT] (initial\<lparr>terminated := True\<rparr>))) = 0"
    using signal_idempotence [THEN conjunct2, THEN conjunct1, rule_format, OF t,
        of "[Some SIGTERM, Some SIGINT]"]
    by (simp add: te)
  moreover have "signal_read (Some SIGINT) initial = signal_read (Some SIGTERM) initial"
    using signal_idempotence [of initial] b by blast
  moreover have "signal_read (Some SIGINT) (initial\<lparr>input := Some (Io 0)\<rparr>)
       = (False, initial\<lparr>input := Some (Io 0), rl_line_buffer := [], rl_point := 0,
            events := [Readline Rl_crlf, Readline Rl_on_new_line, Readline Rl_redisplay]\<rparr>)"
    using signal_idempotence [THEN conjunct2, THEN conjunct2, THEN conjunct2, rule_format, OF d]
    by (simp add: e)
  ultimately show ?thesis by blast
qed

subsection \<open>The prompt override\<close>

text \<open>
  C2. While a prompt override is pending, a second \<^verbatim>\<open>bt_shell_prompt_input\<close> changes
  nothing: the pending function and its context stay. A release with any input then
  restores the prompt and calls the pending function, and nothing else, once, with that
  input and the pending context, and leaves no prompt pending. Started from the idle
  state: after a first request with the function \<open>f1\<close> and a second request, the release
  calls \<open>f1\<close> only. (The pending function is a real function: a NULL one makes the
  release crash.)
\<close>

theorem prompt_exclusive:
  "(saved_prompt s \<longrightarrow> bt_shell_prompt_input cfg label msg f2 u2 s = s)
   \<and> (saved_prompt s \<and> saved_func s = Some f \<longrightarrow>
        bt_shell_release_prompt inp (bt_shell_prompt_input cfg label msg f2 u2 s)
          = Inr (0, s\<lparr>saved_prompt := False, saved_func := None, saved_user_data := None,
                      events := events s @ [Readline Rl_restore_prompt,
                                            Prompt_func f inp (saved_user_data s)]\<rparr>))
   \<and> (\<not> saved_prompt s \<longrightarrow>
        bt_shell_release_prompt inp
            (bt_shell_prompt_input cfg label msg f2 u2
              (bt_shell_prompt_input cfg label1 msg1 (Some f1) u1 s))
          = Inr (0, s\<lparr>saved_prompt := False, saved_func := None, saved_user_data := None,
                      events := events s @
                        [Readline Rl_save_prompt,
                         Readline (Rl_message (COLOR_RED cfg @ ''['' @ label1 @ '']'' @ COLOR_OFF cfg
                                               @ '' '' @ msg1 @ '' '')),
                         Readline Rl_restore_prompt,
                         Prompt_func f1 inp u1]\<rparr>))"
  by (simp add: bt_shell_prompt_input_def bt_shell_release_prompt_def rl_def emit_def)

theorem prompt_exclusive_witness:
  "bt_shell_release_prompt ''1234''
      (bt_shell_prompt_input cfg0 ''agent'' ''Confirm'' (Some 8) (Some 9)
        (bt_shell_prompt_input cfg0 ''agent'' ''Enter PIN'' (Some 5) (Some 6) initial))
     = Inr (0, initial\<lparr>events :=
               [Readline Rl_save_prompt,
                Readline (Rl_message (COLOR_RED cfg0 @ ''[agent]'' @ COLOR_OFF cfg0 @ '' Enter PIN '')),
                Readline Rl_restore_prompt,
                Prompt_func 5 ''1234'' (Some 6)]\<rparr>)
   \<and> bt_shell_prompt_input cfg0 ''agent'' ''Confirm'' (Some 8) (Some 9)
        (initial\<lparr>saved_prompt := True, saved_func := Some 5, saved_user_data := Some 6\<rparr>)
       = initial\<lparr>saved_prompt := True, saved_func := Some 5, saved_user_data := Some 6\<rparr>
   \<and> bt_shell_release_prompt ''yes''
        (bt_shell_prompt_input cfg0 ''agent'' ''Confirm'' (Some 8) (Some 9)
          (initial\<lparr>saved_prompt := True, saved_func := Some 5, saved_user_data := Some 6\<rparr>))
       = Inr (0, initial\<lparr>events := [Readline Rl_restore_prompt, Prompt_func 5 ''yes'' (Some 6)]\<rparr>)"
proof -
  let ?p = "initial\<lparr>saved_prompt := True, saved_func := Some 5, saved_user_data := Some 6\<rparr>"
  have a: "\<not> saved_prompt initial" and b: "events initial = []"
    by (simp_all add: initial_def)
  have c: "initial\<lparr>saved_prompt := False, saved_func := None, saved_user_data := None, events := x\<rparr>
             = initial\<lparr>events := x\<rparr>" for x
    by (simp add: initial_def)
  have p: "saved_prompt ?p" and pf: "saved_prompt ?p \<and> saved_func ?p = Some 5"
    and pe: "events ?p = []" "saved_user_data ?p = Some 6"
       "?p\<lparr>saved_prompt := False, saved_func := None, saved_user_data := None, events := x\<rparr>
          = initial\<lparr>events := x\<rparr>" for x
    by (simp_all add: initial_def)
  have "bt_shell_release_prompt ''1234''
      (bt_shell_prompt_input cfg0 ''agent'' ''Confirm'' (Some 8) (Some 9)
        (bt_shell_prompt_input cfg0 ''agent'' ''Enter PIN'' (Some 5) (Some 6) initial))
     = Inr (0, initial\<lparr>events :=
               [Readline Rl_save_prompt,
                Readline (Rl_message (COLOR_RED cfg0 @ ''[agent]'' @ COLOR_OFF cfg0 @ '' Enter PIN '')),
                Readline Rl_restore_prompt,
                Prompt_func 5 ''1234'' (Some 6)]\<rparr>)"
    using prompt_exclusive [THEN conjunct2, THEN conjunct2, rule_format, OF a,
        of "''1234''" cfg0 "''agent''" "''Confirm''" "Some 8" "Some 9" "''agent''" "''Enter PIN''" 5 "Some 6"]
    by (simp add: b c)
  moreover have "bt_shell_prompt_input cfg0 ''agent'' ''Confirm'' (Some 8) (Some 9) ?p = ?p"
    using prompt_exclusive [THEN conjunct1, rule_format, OF p] .
  moreover have "bt_shell_release_prompt ''yes''
        (bt_shell_prompt_input cfg0 ''agent'' ''Confirm'' (Some 8) (Some 9) ?p)
       = Inr (0, initial\<lparr>events := [Readline Rl_restore_prompt, Prompt_func 5 ''yes'' (Some 6)]\<rparr>)"
    using prompt_exclusive [THEN conjunct2, THEN conjunct1, rule_format, OF pf,
        of "''yes''" cfg0 "''agent''" "''Confirm''" "Some 8" "Some 9"]
    by (simp only: pe append_Nil)
  ultimately show ?thesis by blast
qed

subsection \<open>Leaving the run loop\<close>

lemma detach_events:
  "snd (bt_shell_detach s)
     = s\<lparr>input := None,
         events := events s @ (case input s of None \<Rightarrow> [] | Some i \<Rightarrow> [Io_destroy (Some i)])\<rparr>"
  by (cases "input s") (simp_all add: bt_shell_detach_def emit_def)

text \<open>
  C10. When the main loop started by \<^verbatim>\<open>bt_shell_run\<close> has returned with a prompt
  override still pending, \<^verbatim>\<open>bt_shell_run\<close> returns, and what it does after the loop
  starts with the release of that prompt: the pending function is called once with the
  empty string and its context, before the input is destroyed and detached, the signal
  io is destroyed, the loop is dropped and readline is cleaned up.
\<close>

theorem run_releases_prompt:
  assumes "g_main_loop_run cfg ds (snd (setup_signalfd r s)) = Some (Inr s1)"
    and "saved_prompt s1" and "saved_func s1 = Some f"
  shows "bt_shell_run cfg r ds s =
     Some (Inr (s1\<lparr>saved_prompt := False, saved_func := None, saved_user_data := None,
                   input := None, main_loop := None,
                   events := events s1 @
                     [Readline Rl_restore_prompt, Prompt_func f [] (saved_user_data s1)]
                     @ (case input s1 of None \<Rightarrow> [] | Some i \<Rightarrow> [Io_destroy (Some i)])
                     @ [Io_destroy (fst (setup_signalfd r s)), Main_loop_unref,
                        Readline (Rl_message []), Readline Rl_callback_handler_remove]\<rparr>))"
proof -
  obtain sg s0 where sg: "setup_signalfd r s = (sg, s0)"
    by (cases "setup_signalfd r s")
  let ?s2 = "s1\<lparr>saved_prompt := False, saved_func := None, saved_user_data := None,
               events := events s1 @ [Readline Rl_restore_prompt, Prompt_func f [] (saved_user_data s1)]\<rparr>"
  have rel: "bt_shell_release_prompt [] s1 = Inr (0, ?s2)"
    using assms(2,3) by (simp add: bt_shell_release_prompt_def rl_def emit_def)
  have "bt_shell_run_exit sg s1 = Inr (s1\<lparr>saved_prompt := False, saved_func := None, saved_user_data := None,
                   input := None, main_loop := None,
                   events := events s1 @
                     [Readline Rl_restore_prompt, Prompt_func f [] (saved_user_data s1)]
                     @ (case input s1 of None \<Rightarrow> [] | Some i \<Rightarrow> [Io_destroy (Some i)])
                     @ [Io_destroy sg, Main_loop_unref,
                        Readline (Rl_message []), Readline Rl_callback_handler_remove]\<rparr>)"
    by (simp add: bt_shell_run_exit_def rel detach_events rl_cleanup_def rl_def emit_def)
  with assms(1) sg show ?thesis
    by (simp add: bt_shell_run_def)
qed


theorem run_releases_prompt_witness:
  "bt_shell_run cfg0 (Signalfd 3)
      [Call_attach 0, Call_prompt_input ''agent'' ''Enter PIN'' (Some 5) (Some 6),
       On_signal (Some SIGTERM), Call_printf ''late'']
      (initial\<lparr>main_loop := Some False\<rparr>)
    = Some (Inr (initial\<lparr>terminated := True, events :=
         [Readline Rl_save_prompt,
          Readline (Rl_message (COLOR_RED cfg0 @ ''[agent]'' @ COLOR_OFF cfg0 @ '' Enter PIN '')),
          Readline Rl_crlf, Main_loop_quit,
          Readline Rl_restore_prompt, Prompt_func 5 [] (Some 6),
          Io_destroy (Some (Io 0)), Io_destroy (Some (Io 3)), Main_loop_unref,
          Readline (Rl_message []), Readline Rl_callback_handler_remove]\<rparr>))"
proof -
  let ?s1 = "initial\<lparr>input := Some (Io 0), saved_prompt := True, saved_func := Some 5,
               saved_user_data := Some 6, main_loop := Some False, terminated := True,
               events := [Readline Rl_save_prompt,
                 Readline (Rl_message (COLOR_RED cfg0 @ ''[agent]'' @ COLOR_OFF cfg0 @ '' Enter PIN '')),
                 Readline Rl_crlf, Main_loop_quit]\<rparr>"
  have loop: "g_main_loop_run cfg0
      [Call_attach 0, Call_prompt_input ''agent'' ''Enter PIN'' (Some 5) (Some 6),
       On_signal (Some SIGTERM), Call_printf ''late'']
      (snd (setup_signalfd (Signalfd 3) (initial\<lparr>main_loop := Some False\<rparr>))) = Some (Inr ?s1)"
    by (simp add: g_main_loop_run_def setup_signalfd_def bt_shell_attach_def
        bt_shell_prompt_input_def signal_read_def signal_terminate_def g_main_loop_quit_def
        rl_def emit_def rl_replace_line_def initial_def SIGTERM_def SIGINT_def)
  have p: "saved_prompt ?s1" and f: "saved_func ?s1 = Some 5"
    by simp_all
  show ?thesis
    using run_releases_prompt [OF loop p f]
    by (simp add: setup_signalfd_def initial_def)
qed

subsection \<open>The line handler\<close>

lemma print_entries_events:
  "print_entries cfg es s =
     s\<lparr>events := events s @
         map (\<lambda>e. Stdout (COLOR_HIGHLIGHT cfg @ cmd e @ '' ''
                @ left_justify (CMD_LENGTH - int (length (cmd e))) (or_empty (arg e))
                @ '' '' @ COLOR_OFF cfg @ or_empty (desc e) @ nl)) es\<rparr>"
  by (induction es arbitrary: s) (simp_all add: print_menu_def emit_def)

lemma shell_print_menu_keeps:
  "history (shell_print_menu cfg s) = history s"
  "saved_prompt (shell_print_menu cfg s) = saved_prompt s"
  by (simp_all add: shell_print_menu_def print_entries_events print_text_def emit_def
      split: option.splits)

lemma bt_shell_printf_keeps:
  "history (bt_shell_printf t s) = history s"
  "saved_prompt (bt_shell_printf t s) = saved_prompt s"
  by (simp_all add: bt_shell_printf_def Let_def rl_def emit_def rl_replace_line_def)

lemma call_func_keeps:
  "history (call_func cfg f a s) = history s"
  "saved_prompt (call_func cfg f a s) = saved_prompt s"
  by (cases f; simp add: cmd_version_def cmd_quit_def cmd_help_def g_main_loop_quit_def
      emit_def shell_print_menu_keeps bt_shell_printf_keeps split: option.splits)+

lemma shell_exec_keeps:
  "history (shell_exec cfg c a s) = history s"
  "saved_prompt (shell_exec cfg c a s) = saved_prompt s"
  by (simp_all add: shell_exec_def call_func_keeps print_text_def emit_def split: option.splits)

lemma rl_handler_exec_keeps:
  "history (rl_handler_exec cfg inp s) = history s"
  "saved_prompt (rl_handler_exec cfg inp s) = saved_prompt s"
  by (simp_all add: rl_handler_exec_def shell_exec_keeps split: prod.splits option.splits)

lemma history_search_state:
  "snd (history_search t s) = s \<or> (\<exists>i. snd (history_search t s) = s\<lparr>history_offset := i\<rparr>)"
  by (auto simp: history_search_def split: option.splits)

lemma rl_handler_history_shape:
  "\<exists>i. rl_handler_history inp s
     = s\<lparr>history_offset := i,
         history := (if fst (history_search inp s) = 0 then history s else history s @ [inp])\<rparr>"
proof -
  obtain h s1 where hs: "history_search inp s = (h, s1)"
    by (cases "history_search inp s")
  from history_search_state [of inp s] hs
  have "s1 = s \<or> (\<exists>i. s1 = s\<lparr>history_offset := i\<rparr>)" by simp
  then obtain i where "s1 = s\<lparr>history_offset := i\<rparr>"
  proof
    assume "s1 = s"
    then have "s1 = s\<lparr>history_offset := history_offset s\<rparr>" by simp
    then show ?thesis using that by blast
  qed (use that in blast)
  with hs show ?thesis
    by (auto simp: rl_handler_history_def add_history_def intro!: exI [of _ i])
qed

lemma rl_handler_history_keeps:
  "events (rl_handler_history inp s) = events s"
  "menu (rl_handler_history inp s) = menu s"
  "saved_prompt (rl_handler_history inp s) = saved_prompt s"
  "history (rl_handler_history inp s)
     = (if fst (history_search inp s) = 0 then history s else history s @ [inp])"
  using rl_handler_history_shape [of inp s] by auto

lemma rl_handler_idle:
  "inp \<noteq> [] \<Longrightarrow> \<not> saved_prompt s \<Longrightarrow>
     rl_handler cfg (Some inp) s = Inr (rl_handler_exec cfg inp (rl_handler_history inp s))"
  by (simp add: rl_handler_def bt_shell_release_prompt_def)

lemma find_func_help: "find_func ''help'' default_menu = Some Cmd_help"
  by (simp add: default_menu_def)

text \<open>
  C1, amended. When the line \<^verbatim>\<open>help\<close> is completed while no prompt is pending and a menu
  table without entries is attached, the handler prints the two heading lines and then
  exactly the four built-in entries version, quit, exit and help, each with its fixed
  description. While no table is attached at all, the same line prints nothing.
\<close>

theorem help_lists_builtins:
  "(\<not> saved_prompt s \<and> menu s = Some [] \<longrightarrow>
      (\<exists>s'. rl_handler cfg (Some ''help'') s = Inr s' \<and>
         events s' = events s @
           [Stdout (COLOR_HIGHLIGHT cfg @ ''Available commands:'' @ COLOR_OFF cfg @ nl),
            Stdout (COLOR_HIGHLIGHT cfg @ ''-------------------'' @ COLOR_OFF cfg @ nl),
            Stdout (COLOR_HIGHLIGHT cfg @ ''version '' @ replicate 41 CHR '' '' @ '' ''
                    @ COLOR_OFF cfg @ ''Display version'' @ nl),
            Stdout (COLOR_HIGHLIGHT cfg @ ''quit '' @ replicate 44 CHR '' '' @ '' ''
                    @ COLOR_OFF cfg @ ''Quit program'' @ nl),
            Stdout (COLOR_HIGHLIGHT cfg @ ''exit '' @ replicate 44 CHR '' '' @ '' ''
                    @ COLOR_OFF cfg @ ''Quit program'' @ nl),
            Stdout (COLOR_HIGHLIGHT cfg @ ''help '' @ replicate 44 CHR '' '' @ '' ''
                    @ COLOR_OFF cfg @ ''Display help about this program'' @ nl)]))
   \<and> (\<not> saved_prompt s \<and> menu s = None \<longrightarrow>
      (\<exists>s'. rl_handler cfg (Some ''help'') s = Inr s' \<and> events s' = events s))"
proof (intro conjI impI)
  let ?h = "rl_handler_history ''help'' s"
  have tok: "rl_handler_exec cfg ''help'' ?h = shell_exec cfg (Some ''help'') (Some []) ?h"
    by (simp add: rl_handler_exec_def strtok_r_def strip_arg_def)
  {
    assume a: "\<not> saved_prompt s \<and> menu s = Some []"
    then have "rl_handler cfg (Some ''help'') s = Inr (shell_exec cfg (Some ''help'') (Some []) ?h)"
      using rl_handler_idle [of "''help''" s cfg] tok by simp
    moreover have "events (shell_exec cfg (Some ''help'') (Some []) ?h) = events s @
           [Stdout (COLOR_HIGHLIGHT cfg @ ''Available commands:'' @ COLOR_OFF cfg @ nl),
            Stdout (COLOR_HIGHLIGHT cfg @ ''-------------------'' @ COLOR_OFF cfg @ nl),
            Stdout (COLOR_HIGHLIGHT cfg @ ''version '' @ replicate 41 CHR '' '' @ '' ''
                    @ COLOR_OFF cfg @ ''Display version'' @ nl),
            Stdout (COLOR_HIGHLIGHT cfg @ ''quit '' @ replicate 44 CHR '' '' @ '' ''
                    @ COLOR_OFF cfg @ ''Quit program'' @ nl),
            Stdout (COLOR_HIGHLIGHT cfg @ ''exit '' @ replicate 44 CHR '' '' @ '' ''
                    @ COLOR_OFF cfg @ ''Quit program'' @ nl),
            Stdout (COLOR_HIGHLIGHT cfg @ ''help '' @ replicate 44 CHR '' '' @ '' ''
                    @ COLOR_OFF cfg @ ''Display help about this program'' @ nl)]"
      using a
      by (simp add: shell_exec_def rl_handler_history_keeps find_func_help cmd_help_def
          shell_print_menu_def print_entries_events print_text_def emit_def default_menu_def
          left_justify_def CMD_LENGTH_def or_empty_def)
    ultimately show "\<exists>s'. rl_handler cfg (Some ''help'') s = Inr s' \<and>
         events s' = events s @
           [Stdout (COLOR_HIGHLIGHT cfg @ ''Available commands:'' @ COLOR_OFF cfg @ nl),
            Stdout (COLOR_HIGHLIGHT cfg @ ''-------------------'' @ COLOR_OFF cfg @ nl),
            Stdout (COLOR_HIGHLIGHT cfg @ ''version '' @ replicate 41 CHR '' '' @ '' ''
                    @ COLOR_OFF cfg @ ''Display version'' @ nl),
            Stdout (COLOR_HIGHLIGHT cfg @ ''quit '' @ replicate 44 CHR '' '' @ '' ''
                    @ COLOR_OFF cfg @ ''Quit program'' @ nl),
            Stdout (COLOR_HIGHLIGHT cfg @ ''exit '' @ replicate 44 CHR '' '' @ '' ''
                    @ COLOR_OFF cfg @ ''Quit program'' @ nl),
            Stdout (COLOR_HIGHLIGHT cfg @ ''help '' @ replicate 44 CHR '' '' @ '' ''
                    @ COLOR_OFF cfg @ ''Display help about this program'' @ nl)]"
      by blast
  }
  {
    assume a: "\<not> saved_prompt s \<and> menu s = None"
    then have "rl_handler cfg (Some ''help'') s = Inr (shell_exec cfg (Some ''help'') (Some []) ?h)"
      using rl_handler_idle [of "''help''" s cfg] tok by simp
    moreover have "events (shell_exec cfg (Some ''help'') (Some []) ?h) = events s"
      using a by (simp add: shell_exec_def rl_handler_history_keeps)
    ultimately show "\<exists>s'. rl_handler cfg (Some ''help'') s = Inr s' \<and> events s' = events s"
      by blast
  }
qed


theorem help_lists_builtins_witness:
  "(\<exists>s'. rl_handler cfg0 (Some ''help'') (initial\<lparr>menu := Some []\<rparr>) = Inr s' \<and>
         events s' =
           [Stdout (COLOR_HIGHLIGHT cfg0 @ ''Available commands:'' @ COLOR_OFF cfg0 @ nl),
            Stdout (COLOR_HIGHLIGHT cfg0 @ ''-------------------'' @ COLOR_OFF cfg0 @ nl),
            Stdout (COLOR_HIGHLIGHT cfg0 @ ''version '' @ replicate 41 CHR '' '' @ '' ''
                    @ COLOR_OFF cfg0 @ ''Display version'' @ nl),
            Stdout (COLOR_HIGHLIGHT cfg0 @ ''quit '' @ replicate 44 CHR '' '' @ '' ''
                    @ COLOR_OFF cfg0 @ ''Quit program'' @ nl),
            Stdout (COLOR_HIGHLIGHT cfg0 @ ''exit '' @ replicate 44 CHR '' '' @ '' ''
                    @ COLOR_OFF cfg0 @ ''Quit program'' @ nl),
            Stdout (COLOR_HIGHLIGHT cfg0 @ ''help '' @ replicate 44 CHR '' '' @ '' ''
                    @ COLOR_OFF cfg0 @ ''Display help about this program'' @ nl)])
   \<and> (\<exists>s'. rl_handler cfg0 (Some ''help'') initial = Inr s' \<and> events s' = [])"
proof -
  have a: "\<not> saved_prompt (initial\<lparr>menu := Some []\<rparr>) \<and> menu (initial\<lparr>menu := Some []\<rparr>) = Some []"
    and b: "\<not> saved_prompt initial \<and> menu initial = None"
    and c: "events (initial\<lparr>menu := Some []\<rparr>) = []" "events initial = []"
    by (simp_all add: initial_def)
  show ?thesis
    using help_lists_builtins [THEN conjunct1, rule_format, OF a, of cfg0]
      help_lists_builtins [THEN conjunct2, rule_format, OF b, of cfg0]
    by (simp only: c append_Nil)
qed

text \<open>
  C1 as it was stated fails: in the initial state, where no table has been attached, the
  line \<^verbatim>\<open>help\<close> goes to the history and nothing is printed.
\<close>

theorem help_without_menu_counterexample:
  "rl_handler cfg0 (Some ''help'') initial = Inr (initial\<lparr>history := [''help'']\<rparr>)
   \<and> events (initial\<lparr>history := [''help'']\<rparr>) = []"
  by (simp add: rl_handler_def bt_shell_release_prompt_def rl_handler_history_def
      history_search_def add_history_def rl_handler_exec_def strtok_r_def strip_arg_def
      shell_exec_def initial_def)

subsection \<open>Tokens and dispatch\<close>

lemma strtok_r_spaces:
  "set inp \<subseteq> {d} \<Longrightarrow> strtok_r inp d = (None, [])"
proof -
  assume "set inp \<subseteq> {d}"
  then have "dropWhile (\<lambda>c. c = d) inp = []"
    by auto
  then show ?thesis
    by (simp add: strtok_r_def)
qed

lemma strtok_r_last_token:
  assumes "c \<noteq> []" and "d \<notin> set c"
  shows "strtok_r (replicate k d @ c) d = (Some c, [])"
proof -
  have "dropWhile (\<lambda>x. x = d) (replicate k d @ c) = dropWhile (\<lambda>x. x = d) c"
    by (rule dropWhile_append2) simp
  also have "\<dots> = c"
    using assms by (cases c) auto
  finally have 1: "dropWhile (\<lambda>x. x = d) (replicate k d @ c) = c" .
  have 2: "takeWhile (\<lambda>x. x \<noteq> d) c = c" "dropWhile (\<lambda>x. x \<noteq> d) c = []"
    using assms(2) by auto
  show ?thesis
    using assms(1) by (simp add: strtok_r_def 1 2)
qed

lemma strtok_r_token:
  assumes "c \<noteq> []" and "d \<notin> set c"
  shows "strtok_r (replicate k d @ c @ d # a) d = (Some c, a)"
proof -
  have "dropWhile (\<lambda>x. x = d) (replicate k d @ c @ d # a) = dropWhile (\<lambda>x. x = d) (c @ d # a)"
    by (rule dropWhile_append2) simp
  also have "\<dots> = c @ d # a"
    using assms by (cases c) auto
  finally have 1: "dropWhile (\<lambda>x. x = d) (replicate k d @ c @ d # a) = c @ d # a" .
  have 2: "takeWhile (\<lambda>x. x \<noteq> d) (c @ d # a) = c"
    using assms(2) by (induction c) auto
  have 3: "dropWhile (\<lambda>x. x \<noteq> d) (c @ d # a) = d # a"
    using assms(2) by (induction c) auto
  show ?thesis
    using assms(1) by (simp add: strtok_r_def 1 2 3)
qed

lemma strip_arg_last:
  "strip_arg a = (if a \<noteq> [] \<and> last a = CHR '' '' then butlast a else a)"
  by (cases "a = []") (simp_all add: strip_arg_def last_conv_nth butlast_conv_take)

lemma find_func_None:
  "(find_func c es = None) = (\<forall>e \<in> set es. cmd e = c \<longrightarrow> func e = None)"
  by (induction es) (auto split: option.splits)

text \<open>
  C7, amended. Executing a line does nothing when no menu is attached or when the line
  holds nothing but spaces. Otherwise the spaces at its start are skipped, the command is
  what comes before the next space, and the argument is everything after that one space,
  further spaces included (the empty string when the command ends the line); one space
  at the end of the argument is cut. A command that no entry with a handler resolves, in
  the attached table or among the built-ins, prints \<^verbatim>\<open>Invalid command\<close> and changes
  nothing else: the loop is not asked to quit.
\<close>

theorem dispatch_splits_line:
  "(menu s = None \<longrightarrow> rl_handler_exec cfg inp s = s)
   \<and> (set inp \<subseteq> {CHR '' ''} \<longrightarrow> rl_handler_exec cfg inp s = s)
   \<and> (c \<noteq> [] \<and> CHR '' '' \<notin> set c \<longrightarrow>
        rl_handler_exec cfg (replicate k CHR '' '' @ c) s = shell_exec cfg (Some c) (Some []) s
        \<and> rl_handler_exec cfg (replicate k CHR '' '' @ c @ CHR '' '' # a) s
            = shell_exec cfg (Some c)
                (Some (if a \<noteq> [] \<and> last a = CHR '' '' then butlast a else a)) s)
   \<and> (menu s = Some m \<and> (\<forall>e \<in> set (m @ default_menu). cmd e = c \<longrightarrow> func e = None) \<longrightarrow>
        shell_exec cfg (Some c) x s
          = s\<lparr>events := events s @
                [Stdout (COLOR_HIGHLIGHT cfg @ ''Invalid command'' @ COLOR_OFF cfg @ nl)]\<rparr>)"
proof (intro conjI impI)
  assume "menu s = None"
  then show "rl_handler_exec cfg inp s = s"
    by (simp add: rl_handler_exec_def shell_exec_def split: prod.splits option.splits)
next
  assume "set inp \<subseteq> {CHR '' ''}"
  then show "rl_handler_exec cfg inp s = s"
    by (simp add: rl_handler_exec_def strtok_r_spaces)
next
  assume "c \<noteq> [] \<and> CHR '' '' \<notin> set c"
  then show "rl_handler_exec cfg (replicate k CHR '' '' @ c) s = shell_exec cfg (Some c) (Some []) s"
    by (simp add: rl_handler_exec_def strtok_r_last_token strip_arg_last)
next
  assume "c \<noteq> [] \<and> CHR '' '' \<notin> set c"
  then show "rl_handler_exec cfg (replicate k CHR '' '' @ c @ CHR '' '' # a) s
            = shell_exec cfg (Some c)
                (Some (if a \<noteq> [] \<and> last a = CHR '' '' then butlast a else a)) s"
    by (simp add: rl_handler_exec_def strtok_r_token strip_arg_last)
next
  assume a: "menu s = Some m \<and> (\<forall>e \<in> set (m @ default_menu). cmd e = c \<longrightarrow> func e = None)"
  then have "find_func c m = None" and "find_func c default_menu = None"
    by (simp_all add: find_func_None)
  with a show "shell_exec cfg (Some c) x s
          = s\<lparr>events := events s @
                [Stdout (COLOR_HIGHLIGHT cfg @ ''Invalid command'' @ COLOR_OFF cfg @ nl)]\<rparr>"
    by (simp add: shell_exec_def print_text_def emit_def)
qed

text \<open>
  C7 as it was stated fails: with two spaces after the command the argument keeps the
  second one, and a line that holds a tab only is executed as a command and reported as
  invalid.
\<close>

theorem dispatch_splits_line_counterexample:
  "events (rl_handler_exec cfg0 ''a  b''
     (initial\<lparr>menu := Some [\<lparr>cmd = ''a'', arg = None, func = Some (External 1), desc = None,
                                gen = None, disp = None\<rparr>]\<rparr>))
     = [Menu_func 1 (Some '' b'')]
   \<and> events (rl_handler_exec cfg0 [CHR 0x09] (initial\<lparr>menu := Some []\<rparr>))
     = [Stdout (COLOR_HIGHLIGHT cfg0 @ ''Invalid command'' @ COLOR_OFF cfg0 @ nl)]"
  by (simp add: rl_handler_exec_def strtok_r_def strip_arg_def shell_exec_def default_menu_def
      print_text_def emit_def initial_def)

theorem dispatch_splits_line_witness:
  "rl_handler_exec cfg0 ''frob'' initial = initial
   \<and> rl_handler_exec cfg0 ''   '' (initial\<lparr>menu := Some []\<rparr>) = initial\<lparr>menu := Some []\<rparr>
   \<and> rl_handler_exec cfg0 ('' '' @ ''frob'') (initial\<lparr>menu := Some []\<rparr>)
       = shell_exec cfg0 (Some ''frob'') (Some []) (initial\<lparr>menu := Some []\<rparr>)
   \<and> rl_handler_exec cfg0 ('' '' @ ''frob'' @ CHR '' '' # '' x y '') (initial\<lparr>menu := Some []\<rparr>)
       = shell_exec cfg0 (Some ''frob'') (Some '' x y'') (initial\<lparr>menu := Some []\<rparr>)
   \<and> shell_exec cfg0 (Some ''frob'') (Some '' x y'') (initial\<lparr>menu := Some []\<rparr>)
       = initial\<lparr>menu := Some [], events :=
           [Stdout (COLOR_HIGHLIGHT cfg0 @ ''Invalid command'' @ COLOR_OFF cfg0 @ nl)]\<rparr>"
proof -
  let ?s = "initial\<lparr>menu := Some []\<rparr>"
  have a: "menu initial = None" and b: "set ''   '' \<subseteq> {CHR '' ''}"
    and c: "''frob'' \<noteq> [] \<and> CHR '' '' \<notin> set ''frob''"
    and d: "menu ?s = Some [] \<and> (\<forall>e \<in> set ([] @ default_menu). cmd e = ''frob'' \<longrightarrow> func e = None)"
    and e: "events ?s = []"
    by (simp_all add: initial_def default_menu_def)
  have "rl_handler_exec cfg0 ''frob'' initial = initial"
    using dispatch_splits_line [THEN conjunct1, rule_format, OF a] .
  moreover have "rl_handler_exec cfg0 ''   '' ?s = ?s"
    using dispatch_splits_line [THEN conjunct2, THEN conjunct1, rule_format, OF b] .
  moreover have "rl_handler_exec cfg0 ('' '' @ ''frob'') ?s = shell_exec cfg0 (Some ''frob'') (Some []) ?s"
    using dispatch_splits_line [THEN conjunct2, THEN conjunct2, THEN conjunct1, rule_format, OF c,
        THEN conjunct1, of cfg0 1 ?s]
    by simp
  moreover have "rl_handler_exec cfg0 ('' '' @ ''frob'' @ CHR '' '' # '' x y '') ?s
       = shell_exec cfg0 (Some ''frob'') (Some '' x y'') ?s"
    using dispatch_splits_line [THEN conjunct2, THEN conjunct2, THEN conjunct1, rule_format, OF c,
        THEN conjunct2, of cfg0 1 "'' x y ''" ?s]
    by simp
  moreover have "shell_exec cfg0 (Some ''frob'') (Some '' x y'') ?s
       = initial\<lparr>menu := Some [], events :=
           [Stdout (COLOR_HIGHLIGHT cfg0 @ ''Invalid command'' @ COLOR_OFF cfg0 @ nl)]\<rparr>"
    using dispatch_splits_line [THEN conjunct2, THEN conjunct2, THEN conjunct2, rule_format, OF d,
        of cfg0 "Some '' x y''"]
    by (simp add: e)
  ultimately show ?thesis by blast
qed

subsection \<open>History\<close>

lemma find_rev_upt:
  "(List.find P (rev [0 ..< n]) = Some k) = (k < n \<and> P k \<and> (\<forall>j. k < j \<and> j < n \<longrightarrow> \<not> P j))"
proof (induction n)
  case 0
  then show ?case by simp
next
  case (Suc n)
  show ?case
  proof (cases "P n")
    case True
    then show ?thesis
      by (auto simp: less_Suc_eq)
  next
    case False
    then show ?thesis
      using Suc by (auto simp: less_Suc_eq)
  qed
qed

lemma find_rev_upt_None:
  "(List.find P (rev [0 ..< n]) = None) = (\<forall>j < n. \<not> P j)"
  by (simp add: find_None_iff)

lemma line_search_Some:
  "(line_search t line = Some k) =
     (k + length t \<le> length line \<and> take (length t) (drop k line) = t
      \<and> (\<forall>j. k < j \<and> j + length t \<le> length line \<longrightarrow> take (length t) (drop j line) \<noteq> t))"
proof (cases "length line < length t")
  case True
  then show ?thesis
    by (simp add: line_search_def)
next
  case False
  then have b: "(j < Suc (length line - length t)) = (j + length t \<le> length line)" for j
    by arith
  from False have "line_search t line
      = List.find (\<lambda>k. take (length t) (drop k line) = t) (rev [0 ..< Suc (length line - length t)])"
    by (simp only: line_search_def if_False)
  then show ?thesis
    by (simp only: find_rev_upt b)
qed

lemma line_search_None:
  "(line_search t line = None) =
     (\<forall>j. j + length t \<le> length line \<longrightarrow> take (length t) (drop j line) \<noteq> t)"
proof (cases "length line < length t")
  case True
  then show ?thesis
    by (simp add: line_search_def)
next
  case False
  then have b: "(j < Suc (length line - length t)) = (j + length t \<le> length line)" for j
    by arith
  from False have "line_search t line
      = List.find (\<lambda>k. take (length t) (drop k line) = t) (rev [0 ..< Suc (length line - length t)])"
    by (simp only: line_search_def if_False)
  then show ?thesis
    by (simp only: find_rev_upt_None b)
qed

lemma line_search_self: "line_search t t = Some 0"
  by (auto simp: line_search_Some)

lemma entries_search_Some:
  "(entries_search t es n = Some (i, k)) =
     (i \<le> n \<and> line_search t (es ! i) = Some k
      \<and> (\<forall>j. i < j \<and> j \<le> n \<longrightarrow> line_search t (es ! j) = None))"
proof (induction n)
  case 0
  then show ?case
    by (auto split: option.splits)
next
  case (Suc n)
  show ?case
  proof (cases "line_search t (es ! Suc n)")
    case None
    then show ?thesis
      using Suc by (auto simp: le_Suc_eq)
  next
    case (Some k')
    then show ?thesis
      by (auto simp: le_Suc_eq)
  qed
qed

lemma history_search_zero:
  "(fst (history_search t s) = 0) =
     (t \<noteq> [] \<and> history s \<noteq> []
      \<and> (\<exists>i \<le> min (history_offset s) (length (history s) - 1).
            line_search t (history s ! i) = Some 0
            \<and> (\<forall>j. i < j \<and> j \<le> min (history_offset s) (length (history s) - 1)
                  \<longrightarrow> line_search t (history s ! j) = None)))"
proof (cases "t = [] \<or> history s = []")
  case True
  then show ?thesis
    by (auto simp: history_search_def)
next
  case False
  let ?n = "min (history_offset s) (length (history s) - 1)"
  show ?thesis
  proof (cases "entries_search t (history s) ?n")
    case None
    have "\<not> (\<exists>i k. entries_search t (history s) ?n = Some (i, k))"
      using None by simp
    then have "\<not> (\<exists>i \<le> ?n. line_search t (history s ! i) = Some 0
            \<and> (\<forall>j. i < j \<and> j \<le> ?n \<longrightarrow> line_search t (history s ! j) = None))"
      by (simp only: entries_search_Some) blast
    with None False show ?thesis
      by (simp add: history_search_def)
  next
    case (Some p)
    obtain i k where p: "p = (i, k)" by (cases p)
    have "(k = 0) = (\<exists>i \<le> ?n. line_search t (history s ! i) = Some 0
            \<and> (\<forall>j. i < j \<and> j \<le> ?n \<longrightarrow> line_search t (history s ! j) = None))"
    proof
      assume "k = 0"
      with Some p show "\<exists>i \<le> ?n. line_search t (history s ! i) = Some 0
            \<and> (\<forall>j. i < j \<and> j \<le> ?n \<longrightarrow> line_search t (history s ! j) = None)"
        by (auto simp only: entries_search_Some)
    next
      assume "\<exists>i \<le> ?n. line_search t (history s ! i) = Some 0
            \<and> (\<forall>j. i < j \<and> j \<le> ?n \<longrightarrow> line_search t (history s ! j) = None)"
      then obtain i' where "entries_search t (history s) ?n = Some (i', 0)"
        by (auto simp only: entries_search_Some)
      with Some p show "k = 0" by simp
    qed
    with Some p False show ?thesis
      by (simp add: history_search_def)
  qed
qed

lemma history_search_last:
  assumes "t \<noteq> []" and "history s \<noteq> []" and "last (history s) = t"
    and "length (history s) \<le> Suc (history_offset s)"
  shows "fst (history_search t s) = 0"
proof -
  let ?n = "min (history_offset s) (length (history s) - 1)"
  have n: "?n = length (history s) - 1"
    using assms(4) by simp
  have "history s ! ?n = t"
    unfolding n using assms(2,3) by (simp add: last_conv_nth)
  then have "line_search t (history s ! ?n) = Some 0"
    by (simp add: line_search_self)
  then have "\<exists>i \<le> ?n. line_search t (history s ! i) = Some 0
            \<and> (\<forall>j. i < j \<and> j \<le> ?n \<longrightarrow> line_search t (history s ! j) = None)"
    by (intro exI [of _ ?n]) auto
  then show ?thesis
    using assms(1,2) by (simp only: history_search_zero) simp
qed

lemma history_search_fst_cong:
  "history s' = history s \<Longrightarrow> history_offset s' = history_offset s \<Longrightarrow>
     fst (history_search t s') = fst (history_search t s)"
  by (simp add: history_search_def split: option.splits prod.splits)

text \<open>
  C3, amended. A completed non-empty line that no prompt release consumes is added to the
  history unless the search of the history answers 0, and is then executed. The search
  answers 0 exactly when, going from the current history position towards older entries,
  the first entry that contains the line has its last occurrence of the line at its very
  start. A line equal to the newest entry, with the position at or after that entry, is
  therefore not added, and the same line completed twice in a row, each time with the
  position at the end as readline sets it for a new line, is added at most once: the
  second time adds nothing.
\<close>

theorem history_duplicates:
  "(inp \<noteq> [] \<and> \<not> saved_prompt s \<longrightarrow>
      rl_handler cfg (Some inp) s = Inr (rl_handler_exec cfg inp (rl_handler_history inp s))
      \<and> history (rl_handler_exec cfg inp (rl_handler_history inp s))
          = (if fst (history_search inp s) = 0 then history s else history s @ [inp]))
   \<and> ((fst (history_search inp s) = 0) =
        (inp \<noteq> [] \<and> history s \<noteq> []
         \<and> (\<exists>i \<le> min (history_offset s) (length (history s) - 1).
               line_search inp (history s ! i) = Some 0
               \<and> (\<forall>j. i < j \<and> j \<le> min (history_offset s) (length (history s) - 1)
                     \<longrightarrow> line_search inp (history s ! j) = None))))
   \<and> (inp \<noteq> [] \<and> history s \<noteq> [] \<and> last (history s) = inp
        \<and> length (history s) \<le> Suc (history_offset s) \<longrightarrow> fst (history_search inp s) = 0)
   \<and> (inp \<noteq> [] \<and> \<not> saved_prompt s \<longrightarrow>
        (\<exists>s1 s2. rl_handler cfg (Some inp) (using_history s) = Inr s1
                 \<and> rl_handler cfg (Some inp) (using_history s1) = Inr s2
                 \<and> history s2 = history s1
                 \<and> (history s1 = history s \<or> history s1 = history s @ [inp])))"
proof (intro conjI impI)
  assume "inp \<noteq> [] \<and> \<not> saved_prompt s"
  then show "rl_handler cfg (Some inp) s = Inr (rl_handler_exec cfg inp (rl_handler_history inp s))"
    by (simp add: rl_handler_idle)
next
  show "history (rl_handler_exec cfg inp (rl_handler_history inp s))
          = (if fst (history_search inp s) = 0 then history s else history s @ [inp])"
    by (simp add: rl_handler_exec_keeps rl_handler_history_keeps)
next
  show "(fst (history_search inp s) = 0) =
        (inp \<noteq> [] \<and> history s \<noteq> []
         \<and> (\<exists>i \<le> min (history_offset s) (length (history s) - 1).
               line_search inp (history s ! i) = Some 0
               \<and> (\<forall>j. i < j \<and> j \<le> min (history_offset s) (length (history s) - 1)
                     \<longrightarrow> line_search inp (history s ! j) = None)))"
    by (rule history_search_zero)
next
  assume "inp \<noteq> [] \<and> history s \<noteq> [] \<and> last (history s) = inp
        \<and> length (history s) \<le> Suc (history_offset s)"
  then show "fst (history_search inp s) = 0"
    by (simp add: history_search_last)
next
  assume a: "inp \<noteq> [] \<and> \<not> saved_prompt s"
  let ?u = "using_history s"
  let ?s1 = "rl_handler_exec cfg inp (rl_handler_history inp ?u)"
  let ?v = "using_history ?s1"
  let ?s2 = "rl_handler_exec cfg inp (rl_handler_history inp ?v)"
  have u: "\<not> saved_prompt ?u" "history ?u = history s" "history_offset ?u = length (history s)"
    using a by (simp_all add: using_history_def)
  have 1: "rl_handler cfg (Some inp) ?u = Inr ?s1"
    using a u by (simp add: rl_handler_idle)
  have h1: "history ?s1 = (if fst (history_search inp ?u) = 0 then history s else history s @ [inp])"
    by (simp add: rl_handler_exec_keeps rl_handler_history_keeps u)
  have v: "\<not> saved_prompt ?v" "history ?v = history ?s1" "history_offset ?v = length (history ?s1)"
    using u by (simp_all add: using_history_def rl_handler_exec_keeps rl_handler_history_keeps)
  have 2: "rl_handler cfg (Some inp) ?v = Inr ?s2"
    using a v by (simp add: rl_handler_idle)
  have z: "fst (history_search inp ?v) = 0"
  proof (cases "fst (history_search inp ?u) = 0")
    case True
    then have "history ?v = history ?u" "history_offset ?v = history_offset ?u"
      using v h1 u by simp_all
    then have "fst (history_search inp ?v) = fst (history_search inp ?u)"
      by (rule history_search_fst_cong)
    with True show ?thesis by simp
  next
    case False
    then have "history ?v = history s @ [inp]"
      using v h1 by simp
    then show ?thesis
      using a v by (intro history_search_last) simp_all
  qed
  have h2: "history ?s2 = history ?s1"
    by (simp add: rl_handler_exec_keeps rl_handler_history_keeps(4) [of inp ?v] z v
        del: One_nat_def)
  from 1 2 h1 h2
  show "\<exists>s1 s2. rl_handler cfg (Some inp) (using_history s) = Inr s1
                 \<and> rl_handler cfg (Some inp) (using_history s1) = Inr s2
                 \<and> history s2 = history s1
                 \<and> (history s1 = history s \<or> history s1 = history s @ [inp])"
    by (intro exI [of _ ?s1] exI [of _ ?s2]) simp
qed

theorem history_duplicates_witness:
  "fst (history_search ''version'' (initial\<lparr>history := [''help'', ''version''], history_offset := 2\<rparr>)) = 0
   \<and> history (rl_handler_exec cfg0 ''version''
               (rl_handler_history ''version''
                 (initial\<lparr>history := [''help'', ''version''], history_offset := 2\<rparr>)))
       = [''help'', ''version'']
   \<and> (\<exists>s1 s2. rl_handler cfg0 (Some ''version'') (using_history initial) = Inr s1
                 \<and> rl_handler cfg0 (Some ''version'') (using_history s1) = Inr s2
                 \<and> history s2 = history s1
                 \<and> (history s1 = [] \<or> history s1 = [''version'']))"
proof -
  let ?s = "initial\<lparr>history := [''help'', ''version''], history_offset := 2\<rparr>"
  have a: "''version'' \<noteq> [] \<and> \<not> saved_prompt ?s"
    and b: "''version'' \<noteq> [] \<and> history ?s \<noteq> [] \<and> last (history ?s) = ''version''
              \<and> length (history ?s) \<le> Suc (history_offset ?s)"
    and c: "''version'' \<noteq> [] \<and> \<not> saved_prompt initial"
    and d: "history initial = []" "history ?s = [''help'', ''version'']"
    by (simp_all add: initial_def)
  have z: "fst (history_search ''version'' ?s) = 0"
    using history_duplicates [THEN conjunct2, THEN conjunct2, THEN conjunct1, rule_format, OF b] .
  have "history (rl_handler_exec cfg0 ''version'' (rl_handler_history ''version'' ?s))
       = [''help'', ''version'']"
    using history_duplicates [THEN conjunct1, rule_format, OF a, THEN conjunct2, of cfg0]
    by (simp add: z d)
  moreover have "\<exists>s1 s2. rl_handler cfg0 (Some ''version'') (using_history initial) = Inr s1
                 \<and> rl_handler cfg0 (Some ''version'') (using_history s1) = Inr s2
                 \<and> history s2 = history s1
                 \<and> (history s1 = [] \<or> history s1 = [''version''])"
    using history_duplicates [THEN conjunct2, THEN conjunct2, THEN conjunct2, rule_format, OF c, of cfg0]
    by (simp only: d append_Nil)
  ultimately show ?thesis
    using z by blast
qed

text \<open>
  C3 as it was stated fails: the line \<^verbatim>\<open>help\<close> differs from the entry just before it,
  \<^verbatim>\<open>version\<close>, and is not added, because an older entry is \<^verbatim>\<open>help\<close>.
\<close>

theorem history_duplicates_counterexample:
  "rl_handler cfg0 (Some ''help'') (initial\<lparr>history := [''help'', ''version''], history_offset := 2\<rparr>)
     = Inr (initial\<lparr>history := [''help'', ''version''], history_offset := 0\<rparr>)
   \<and> last [''help'', ''version''] \<noteq> ''help''"
  by (simp add: rl_handler_def bt_shell_release_prompt_def rl_handler_history_def
      history_search_def line_search_def add_history_def rl_handler_exec_def strtok_r_def
      strip_arg_def shell_exec_def initial_def)

subsection \<open>Empty lines\<close>

text \<open>
  C4, amended. A completed line that is the empty string is discarded: the state is left
  as it was. A line that holds only spaces is not executed as a command (nothing is
  sent outside), but it goes through the history step when no prompt is pending, and any
  non-empty line, a line of spaces too, is given to the prompt release when a prompt is
  pending: the pending function is called with it.
\<close>

theorem empty_line_discarded:
  "rl_handler cfg (Some []) s = Inr s
   \<and> (inp \<noteq> [] \<and> set inp \<subseteq> {CHR '' ''} \<and> \<not> saved_prompt s \<longrightarrow>
        (\<exists>s'. rl_handler cfg (Some inp) s = Inr s' \<and> events s' = events s
           \<and> history s' = (if fst (history_search inp s) = 0 then history s else history s @ [inp])))
   \<and> (inp \<noteq> [] \<and> saved_prompt s \<and> saved_func s = Some f \<longrightarrow>
        rl_handler cfg (Some inp) s
          = Inr (s\<lparr>saved_prompt := False, saved_func := None, saved_user_data := None,
                   events := events s @ [Readline Rl_restore_prompt,
                                         Prompt_func f inp (saved_user_data s)]\<rparr>))"
proof (intro conjI impI)
  show "rl_handler cfg (Some []) s = Inr s"
    by (simp add: rl_handler_def)
next
  assume a: "inp \<noteq> [] \<and> set inp \<subseteq> {CHR '' ''} \<and> \<not> saved_prompt s"
  then have "rl_handler_exec cfg inp (rl_handler_history inp s) = rl_handler_history inp s"
    by (simp add: rl_handler_exec_def strtok_r_spaces)
  with a have "rl_handler cfg (Some inp) s = Inr (rl_handler_history inp s)"
    by (simp add: rl_handler_idle)
  then show "\<exists>s'. rl_handler cfg (Some inp) s = Inr s' \<and> events s' = events s
           \<and> history s' = (if fst (history_search inp s) = 0 then history s else history s @ [inp])"
    by (simp add: rl_handler_history_keeps)
next
  assume "inp \<noteq> [] \<and> saved_prompt s \<and> saved_func s = Some f"
  then show "rl_handler cfg (Some inp) s
          = Inr (s\<lparr>saved_prompt := False, saved_func := None, saved_user_data := None,
                   events := events s @ [Readline Rl_restore_prompt,
                                         Prompt_func f inp (saved_user_data s)]\<rparr>)"
    by (simp add: rl_handler_def bt_shell_release_prompt_def rl_def emit_def)
qed

theorem empty_line_discarded_witness:
  "rl_handler cfg0 (Some []) initial = Inr initial
   \<and> (\<exists>s'. rl_handler cfg0 (Some ''  '') (initial\<lparr>menu := Some []\<rparr>) = Inr s' \<and> events s' = []
           \<and> history s' = [''  ''])
   \<and> rl_handler cfg0 (Some ''yes'') (initial\<lparr>saved_prompt := True, saved_func := Some 5\<rparr>)
       = Inr (initial\<lparr>events := [Readline Rl_restore_prompt, Prompt_func 5 ''yes'' None]\<rparr>)"
proof -
  let ?m = "initial\<lparr>menu := Some []\<rparr>"
  let ?p = "initial\<lparr>saved_prompt := True, saved_func := Some 5\<rparr>"
  have a: "''  '' \<noteq> [] \<and> set ''  '' \<subseteq> {CHR '' ''} \<and> \<not> saved_prompt ?m"
    and b: "''yes'' \<noteq> [] \<and> saved_prompt ?p \<and> saved_func ?p = Some 5"
    and c: "events ?m = []" "history ?m = []" "fst (history_search ''  '' ?m) \<noteq> 0"
    and d: "events ?p = []" "saved_user_data ?p = None"
        "?p\<lparr>saved_prompt := False, saved_func := None, saved_user_data := None, events := x\<rparr>
           = initial\<lparr>events := x\<rparr>" for x
    by (simp_all add: initial_def history_search_def)
  have "rl_handler cfg0 (Some []) initial = Inr initial"
    using empty_line_discarded [THEN conjunct1] .
  moreover have "\<exists>s'. rl_handler cfg0 (Some ''  '') ?m = Inr s' \<and> events s' = []
           \<and> history s' = [''  '']"
    using empty_line_discarded [THEN conjunct2, THEN conjunct1, rule_format, OF a, of cfg0]
    by (simp add: c)
  moreover have "rl_handler cfg0 (Some ''yes'') ?p
       = Inr (initial\<lparr>events := [Readline Rl_restore_prompt, Prompt_func 5 ''yes'' None]\<rparr>)"
    using empty_line_discarded [THEN conjunct2, THEN conjunct2, rule_format, OF b, of cfg0]
    by (simp add: d initial_def)
  ultimately show ?thesis by blast
qed

text \<open>
  C4 as it was stated fails: a line of three spaces is added to the history, and a line of
  one space is handed to the pending prompt function.
\<close>

theorem empty_line_discarded_counterexample:
  "rl_handler cfg0 (Some ''   '') initial = Inr (initial\<lparr>history := [''   '']\<rparr>)
   \<and> rl_handler cfg0 (Some '' '') (initial\<lparr>saved_prompt := True, saved_func := Some 5\<rparr>)
       = Inr (initial\<lparr>events := [Readline Rl_restore_prompt, Prompt_func 5 '' '' None]\<rparr>)"
  by (simp add: rl_handler_def bt_shell_release_prompt_def rl_handler_history_def
      history_search_def add_history_def rl_handler_exec_def strtok_r_def
      rl_def emit_def initial_def)

subsection \<open>The hex dump\<close>

lemma hexdigits_nth: "i < 16 \<Longrightarrow> hexdigits ! i \<noteq> CHR 0x00"
proof -
  assume "i < 16"
  then have "hexdigits ! i \<in> set hexdigits"
    by (intro nth_mem) (simp add: hexdigits_def)
  moreover have "CHR 0x00 \<notin> set hexdigits"
    by (simp add: hexdigits_def)
  ultimately show ?thesis by metis
qed

lemma high_nibble: "unat (drop_bit 4 (b :: 8 word)) < 16"
proof -
  have "unat b < 256"
    using unsigned_less [of b, where ?'a = nat] by simp
  then have "unat b div 16 < 16"
    by arith
  moreover have "unat (drop_bit 4 b) = drop_bit 4 (unat b)"
    by (rule unat_drop_bit_eq)
  moreover have "drop_bit 4 (unat b) = unat b div 16"
    by (simp add: drop_bit_eq_div)
  ultimately show ?thesis by (simp only:)
qed

lemma low_nibble: "unat ((b :: 8 word) AND 0xf) < 16"
proof -
  have "unat (b AND 0xf) \<le> unat (0xf :: 8 word)"
    by (rule word_and_le1 [THEN word_le_nat_alt [THEN iffD1]])
  then show ?thesis by simp
qed

lemma ascii_of_nonzero: "ascii_of b \<noteq> CHR 0x00"
proof (cases "isprint b")
  case True
  then have b: "32 \<le> unat b" "unat b \<le> 126"
    by (simp_all add: isprint_def word_le_nat_alt)
  have "char_of (unat b) \<noteq> CHR 0x00"
  proof
    assume "char_of (unat b) = CHR 0x00"
    then have "(of_char (char_of (unat b)) :: nat) = of_char (CHR 0x00)"
      by (simp only:)
    with b show False
      by simp
  qed
  with True show ?thesis by (simp add: ascii_of_def)
next
  case False
  then show ?thesis by (simp add: ascii_of_def)
qed

lemma cells_of_nonzero: "r < 4 \<Longrightarrow> cells_of c j ! r \<noteq> CHR 0x00"
proof -
  assume "r < 4"
  then have "r = 0 \<or> r = 1 \<or> r = 2 \<or> r = 3" by arith
  then show ?thesis
    by (auto simp: cells_of_def hexdigits_nth high_nibble low_nibble ascii_of_nonzero)
qed

lemma cells_of_append: "j < length c \<Longrightarrow> cells_of (c @ [b]) j = cells_of c j"
  by (simp add: cells_of_def nth_append)

lemma cells_of_last:
  "cells_of (c @ [b]) (length c)
     = [CHR '' '', hexdigits ! unat (drop_bit 4 b), hexdigits ! unat (b AND 0xf), ascii_of b]"
  by (simp add: cells_of_def)

lemma cells_of_blank: "length c \<le> j \<Longrightarrow> cells_of c j = ''    ''"
  by (simp add: cells_of_def)

lemma row_inv_byte:
  assumes "row_inv str c k" and "k = length c" and "k < 16"
  shows "row_inv (str[k * 3 + 1 := CHR '' '',
                      k * 3 + 2 := hexdigits ! unat (drop_bit 4 b),
                      k * 3 + 3 := hexdigits ! unat (b AND 0xf),
                      k + 51 := ascii_of b]) (c @ [b]) (Suc k)"
proof -
  let ?str = "str[k * 3 + 1 := CHR '' '', k * 3 + 2 := hexdigits ! unat (drop_bit 4 b),
                  k * 3 + 3 := hexdigits ! unat (b AND 0xf), k + 51 := ascii_of b]"
  have len: "length str = 68" and z: "str ! 0 = CHR '' ''"
    and old: "\<And>j. j < k \<Longrightarrow>
       [str ! (j * 3 + 1), str ! (j * 3 + 2), str ! (j * 3 + 3), str ! (j + 51)] = cells_of c j"
    using assms(1) by (simp_all add: row_inv_def)
  have "[?str ! (j * 3 + 1), ?str ! (j * 3 + 2), ?str ! (j * 3 + 3), ?str ! (j + 51)]
          = cells_of (c @ [b]) j" if "j < Suc k" for j
  proof (cases "j = k")
    case True
    then show ?thesis
      using len assms(2,3) by (simp add: cells_of_last)
  next
    case False
    with that have j: "j < k" by simp
    then have "[?str ! (j * 3 + 1), ?str ! (j * 3 + 2), ?str ! (j * 3 + 3), ?str ! (j + 51)]
         = [str ! (j * 3 + 1), str ! (j * 3 + 2), str ! (j * 3 + 3), str ! (j + 51)]"
      using assms(3) by simp
    with j show ?thesis
      using old [of j] assms(2) by (simp add: cells_of_append)
  qed
  then show ?thesis
    using len z by (simp add: row_inv_def)
qed

lemma row_inv_blank:
  assumes "row_inv str c n" and "length c \<le> n" and "n < 16"
  shows "row_inv (str[n * 3 + 1 := CHR '' '', n * 3 + 2 := CHR '' '', n * 3 + 3 := CHR '' '',
                      n + 51 := CHR '' '']) c (Suc n)"
proof -
  let ?str = "str[n * 3 + 1 := CHR '' '', n * 3 + 2 := CHR '' '', n * 3 + 3 := CHR '' '',
                  n + 51 := CHR '' '']"
  have len: "length str = 68" and z: "str ! 0 = CHR '' ''"
    and old: "\<And>j. j < n \<Longrightarrow>
       [str ! (j * 3 + 1), str ! (j * 3 + 2), str ! (j * 3 + 3), str ! (j + 51)] = cells_of c j"
    using assms(1) by (simp_all add: row_inv_def)
  have "[?str ! (j * 3 + 1), ?str ! (j * 3 + 2), ?str ! (j * 3 + 3), ?str ! (j + 51)]
          = cells_of c j" if "j < Suc n" for j
  proof (cases "j = n")
    case True
    then show ?thesis
      using len assms(2,3) by (simp add: cells_of_blank)
  next
    case False
    with that have j: "j < n" by simp
    then have "[?str ! (j * 3 + 1), ?str ! (j * 3 + 2), ?str ! (j * 3 + 3), ?str ! (j + 51)]
         = [str ! (j * 3 + 1), str ! (j * 3 + 2), str ! (j * 3 + 3), str ! (j + 51)]"
      using assms(3) by simp
    with j show ?thesis
      using old [of j] by simp
  qed
  then show ?thesis
    using len z by (simp add: row_inv_def)
qed

lemma row_inv_pad:
  assumes "row_inv str c k" and "k = length c" and "k \<le> 16"
  shows "row_inv (fold (\<lambda>j t. t[j * 3 + 1 := CHR '' '', j * 3 + 2 := CHR '' '',
                               j * 3 + 3 := CHR '' '', j + 51 := CHR '' '']) [k ..< 16] str) c 16"
proof -
  let ?f = "\<lambda>j t. t[j * 3 + 1 := CHR '' '', j * 3 + 2 := CHR '' '',
                     j * 3 + 3 := CHR '' '', j + 51 := CHR '' '']"
  have "row_inv (fold ?f [k ..< n] str) c n" if "k \<le> n" and "n \<le> 16" for n
    using that
  proof (induction n rule: dec_induct)
    case base
    then show ?case using assms(1) by simp
  next
    case (step n)
    then have "row_inv (fold ?f [k ..< n] str) c n" by simp
    then have "row_inv (?f n (fold ?f [k ..< n] str)) c (Suc n)"
      using step assms(2) by (intro row_inv_blank) simp_all
    then show ?case
      using step by simp
  qed
  with assms(3) show ?thesis by simp
qed

lemma hex_cell_at:
  assumes cells: "\<And>j. j < 16 \<Longrightarrow>
       [str ! (j * 3 + 1), str ! (j * 3 + 2), str ! (j * 3 + 3), str ! (j + 51)] = cells_of c j"
   and 2: "0 < p" "p < 49"
  shows "str ! p = cells_of c ((p - 1) div 3) ! ((p - 1) mod 3)"
proof -
  let ?j = "(p - 1) div 3"
  have j: "?j < 16" using 2 by arith
  have r: "(p - 1) mod 3 = 0 \<or> (p - 1) mod 3 = 1 \<or> (p - 1) mod 3 = 2"
    by arith
  have p: "p = ?j * 3 + 1 + (p - 1) mod 3"
    using 2 by arith
  note c = cells [OF j]
  have c0: "cells_of c ?j ! 0 = str ! (?j * 3 + 1)"
    and c1: "cells_of c ?j ! 1 = str ! (?j * 3 + 2)"
    and c2: "cells_of c ?j ! 2 = str ! (?j * 3 + 3)"
    unfolding c [symmetric] by simp_all
  have "str ! (?j * 3 + 1 + (p - 1) mod 3) = cells_of c ?j ! ((p - 1) mod 3)"
    using r
  proof (elim disjE)
    assume a: "(p - 1) mod 3 = 0"
    show ?thesis unfolding a c0 by simp
  next
    assume a: "(p - 1) mod 3 = 1"
    show ?thesis unfolding a c1 by simp
  next
    assume a: "(p - 1) mod 3 = 2"
    have e: "?j * 3 + 1 + 2 = ?j * 3 + 3" by arith
    show ?thesis unfolding a c2 e ..
  qed
  moreover have "str ! p = str ! (?j * 3 + 1 + (p - 1) mod 3)"
    using p by (rule arg_cong)
  ultimately show "str ! p = cells_of c ?j ! ((p - 1) mod 3)"
    by (rule trans [rotated])
qed


lemma row_inv_print:
  assumes "row_inv str c 16"
  shows "c_string (str[49 := CHR '' '', 50 := CHR '' '', 67 := CHR 0x00]) = hex_row c"
proof -
  let ?str = "str[49 := CHR '' '', 50 := CHR '' '', 67 := CHR 0x00]"
  have len: "length str = 68" and z: "str ! 0 = CHR '' ''"
    and cells: "\<And>j. j < 16 \<Longrightarrow>
       [str ! (j * 3 + 1), str ! (j * 3 + 2), str ! (j * 3 + 3), str ! (j + 51)] = cells_of c j"
    using assms by (simp_all add: row_inv_def)
  have char: "?str ! p = row_char c p" if "p < 67" for p
  proof -
    consider "p = 0" | "0 < p" "p < 49" | "p = 49 \<or> p = 50" | "51 \<le> p"
      by arith
    then show ?thesis
    proof cases
      case 1
      then show ?thesis using z by (simp add: row_char_def)
    next
      case 2
      have "str ! p = cells_of c ((p - 1) div 3) ! ((p - 1) mod 3)"
        using cells 2 by (rule hex_cell_at)
      with 2 show ?thesis
        by (simp add: row_char_def)
    next
      case 3
      then show ?thesis using len by (auto simp: row_char_def)
    next
      case 4
      with that have j: "p - 51 < 16" by arith
      from 4 have "str ! p = cells_of c (p - 51) ! 3"
        using cells [OF j, symmetric] by simp
      with 4 that show ?thesis
        by (simp add: row_char_def)
    qed
  qed
  have nonzero: "row_char c p \<noteq> CHR 0x00" for p
    by (simp add: row_char_def cells_of_nonzero)
  have "takeWhile (\<lambda>x. x \<noteq> CHR 0x00) ?str = take 67 ?str"
  proof (rule takeWhile_eq_take_P_nth)
    fix i :: nat
    assume "i < 67"
    then show "?str ! i \<noteq> CHR 0x00"
      using char [of i] nonzero [of i] by simp
  next
    show "\<not> ?str ! 67 \<noteq> CHR 0x00"
      using len by simp
  qed
  moreover have "take 67 ?str = hex_row c"
  proof (rule nth_equalityI)
    show "length (take 67 ?str) = length (hex_row c)"
      using len by (simp add: hex_row_def)
  next
    fix i assume "i < length (take 67 ?str)"
    then have "i < 67" by simp
    then show "take 67 ?str ! i = hex_row c ! i"
      using char [of i] by (simp add: hex_row_def del: upt_Suc)
  qed
  ultimately show ?thesis
    by (simp add: c_string_def)
qed

lemma bt_shell_printf_stdout:
  "stdout_of (events (bt_shell_printf t s)) = stdout_of (events s) @ [t]"
  by (simp add: bt_shell_printf_def Let_def rl_def emit_def rl_replace_line_def stdout_of_append)

lemma hexdump_loop_rows:
  assumes "row_inv str c (length c)" and "length c = i mod 16"
  shows "\<exists>str' s'. hexdump_loop bs i str s = (str', s')
           \<and> row_inv str' (pending c bs) (length (pending c bs))
           \<and> length (pending c bs) = (i + length bs) mod 16
           \<and> stdout_of (events s')
               = stdout_of (events s) @ map (\<lambda>r. hex_row r @ nl) (full_rows c bs)"
  using assms
proof (induction bs arbitrary: c i str s)
  case Nil
  then show ?case by simp
next
  case (Cons b bs)
  let ?k = "i mod 16"
  let ?str1 = "str[?k * 3 + 1 := CHR '' '',
                   ?k * 3 + 2 := hexdigits ! unat (drop_bit 4 b),
                   ?k * 3 + 3 := hexdigits ! unat (b AND 0xf),
                   ?k + 51 := ascii_of b]"
  have k: "?k < 16" by simp
  have inv1: "row_inv ?str1 (c @ [b]) (Suc ?k)"
    using Cons.prems k by (intro row_inv_byte) simp_all
  show ?case
  proof (cases "(i + 1) mod 16 = 0")
    case True
    then have full: "Suc (length c) = 16"
      using Cons.prems(2) by (simp add: mod_Suc split: if_splits)
    let ?str2 = "?str1[49 := CHR '' '', 50 := CHR '' '', 67 := CHR 0x00]"
    let ?s1 = "bt_shell_printf (c_string ?str2 @ nl) s"
    have "row_inv ?str1 (c @ [b]) 16"
      using inv1 full Cons.prems(2) by simp
    then have row: "c_string ?str2 = hex_row (c @ [b])"
      by (rule row_inv_print)
    have "length ?str1 = 68"
      using inv1 by (simp add: row_inv_def)
    then have inv0: "row_inv (?str2[0 := CHR '' '']) [] (length ([] :: 8 word list))"
      by (simp add: row_inv_def)
    have "length ([] :: 8 word list) = (i + 1) mod 16"
      using True by simp
    from Cons.IH [OF inv0 this, of ?s1]
    obtain str' s' where r: "hexdump_loop bs (i + 1) (?str2[0 := CHR '' '']) ?s1 = (str', s')"
      "row_inv str' (pending [] bs) (length (pending [] bs))"
      "length (pending [] bs) = (i + 1 + length bs) mod 16"
      "stdout_of (events s') = stdout_of (events ?s1) @ map (\<lambda>r. hex_row r @ nl) (full_rows [] bs)"
      by blast
    have "hexdump_loop (b # bs) i str s = (str', s')"
      using True r(1) by (simp add: ascii_of_def Let_def)
    moreover have e1: "stdout_of (events ?s1) = stdout_of (events s) @ [hex_row (c @ [b]) @ nl]"
      unfolding bt_shell_printf_stdout row ..
    have fr: "full_rows c (b # bs) = (c @ [b]) # full_rows [] bs"
      using full by simp
    have "stdout_of (events s')
        = (stdout_of (events s) @ [hex_row (c @ [b]) @ nl])
            @ map (\<lambda>r. hex_row r @ nl) (full_rows [] bs)"
      using r(4) unfolding e1 .
    then have "stdout_of (events s')
        = stdout_of (events s) @ map (\<lambda>r. hex_row r @ nl) (full_rows c (b # bs))"
      unfolding fr by simp
    ultimately show ?thesis
      using r(2,3) full \<open>stdout_of (events s')
        = stdout_of (events s) @ map (\<lambda>r. hex_row r @ nl) (full_rows c (b # bs))\<close> by simp
  next
    case False
    then have part: "Suc (length c) \<noteq> 16" and next_k: "length (c @ [b]) = (i + 1) mod 16"
      using Cons.prems(2) by (simp_all add: mod_Suc split: if_splits)
    have inv: "row_inv ?str1 (c @ [b]) (length (c @ [b]))"
      using inv1 Cons.prems(2) by simp
    from Cons.IH [OF inv next_k, of s]
    obtain str' s' where r: "hexdump_loop bs (i + 1) ?str1 s = (str', s')"
      "row_inv str' (pending (c @ [b]) bs) (length (pending (c @ [b]) bs))"
      "length (pending (c @ [b]) bs) = (i + 1 + length bs) mod 16"
      "stdout_of (events s') = stdout_of (events s) @ map (\<lambda>r. hex_row r @ nl) (full_rows (c @ [b]) bs)"
      by blast
    have "hexdump_loop (b # bs) i str s = (str', s')"
      using False r(1) by (simp add: ascii_of_def Let_def)
    then show ?thesis
      using r(2,3,4) part by simp
  qed
qed

lemma hexdump_from_rows:
  assumes "length str0 = 68"
  shows "stdout_of (events (hexdump_from str0 buf s))
           = stdout_of (events s) @ map (\<lambda>r. hex_row r @ nl) (all_rows [] buf)"
proof (cases "buf = []")
  case True
  then show ?thesis
    by (simp add: hexdump_from_def all_rows_def)
next
  case False
  have inv0: "row_inv (str0[0 := CHR '' '']) [] (length ([] :: 8 word list))"
    using assms by (simp add: row_inv_def)
  have "length ([] :: 8 word list) = 0 mod 16" by simp
  from hexdump_loop_rows [OF inv0 this, of buf s]
  obtain str' s' where r: "hexdump_loop buf 0 (str0[0 := CHR '' '']) s = (str', s')"
      "row_inv str' (pending [] buf) (length (pending [] buf))"
      "length (pending [] buf) = length buf mod 16"
      "stdout_of (events s') = stdout_of (events s) @ map (\<lambda>r. hex_row r @ nl) (full_rows [] buf)"
    by auto
  show ?thesis
  proof (cases "length buf mod 16 > 0")
    case True
    then have ne: "pending [] buf \<noteq> []"
      using r(3) by auto
    have "length (pending [] buf) \<le> 16"
      using r(3) by simp
    with r(2) have "row_inv (hexdump_pad (length buf) str') (pending [] buf) 16"
      unfolding hexdump_pad_def r(3) [symmetric] by (intro row_inv_pad) simp_all
    then have "c_string ((hexdump_pad (length buf) str')[49 := CHR '' '', 50 := CHR '' '', 67 := CHR 0x00])
                 = hex_row (pending [] buf)"
      by (rule row_inv_print)
    with True False r(1,4) ne show ?thesis
      by (simp add: hexdump_from_def all_rows_def bt_shell_printf_stdout)
  next
    case False
    then have "pending [] buf = []"
      using r(3) by simp
    with False \<open>buf \<noteq> []\<close> r(1,4) show ?thesis
      by (simp add: hexdump_from_def all_rows_def)
  qed
qed

lemma all_rows_nth:
  assumes "length c < 16"
  shows "length (all_rows c bs) = (length c + length bs + 15) div 16
         \<and> (\<forall>r < length (all_rows c bs). all_rows c bs ! r = take 16 (drop (16 * r) (c @ bs)))"
  using assms
proof (induction bs arbitrary: c)
  case Nil
  show ?case
  proof (cases "c = []")
    case True
    then show ?thesis by (simp add: all_rows_def)
  next
    case False
    then have "0 < length c" by simp
    with Nil have "(length c + 15) div 16 = 1" by arith
    with False Nil show ?thesis by (simp add: all_rows_def)
  qed
next
  case (Cons b bs)
  show ?case
  proof (cases "Suc (length c) = 16")
    case True
    have rows: "all_rows c (b # bs) = (c @ [b]) # all_rows [] bs"
      using True by (simp add: all_rows_def)
    from Cons.IH [of "[]"]
    have len: "length (all_rows [] bs) = (length bs + 15) div 16"
      and nth: "\<And>r. r < length (all_rows [] bs) \<Longrightarrow> all_rows [] bs ! r = take 16 (drop (16 * r) bs)"
      by simp_all
    have "length (all_rows c (b # bs)) = (length c + length (b # bs) + 15) div 16"
      using True len by (simp add: rows)
    moreover have "all_rows c (b # bs) ! r = take 16 (drop (16 * r) (c @ b # bs))"
      if "r < length (all_rows c (b # bs))" for r
    proof (cases r)
      case 0
      then show ?thesis using True by (simp add: rows)
    next
      case (Suc r')
      with that have "r' < length (all_rows [] bs)"
        by (simp add: rows)
      then have "all_rows [] bs ! r' = take 16 (drop (16 * r') bs)"
        by (rule nth)
      moreover have "drop (16 * Suc r') (c @ b # bs) = drop (16 * r') bs"
      proof -
        have "drop (16 * r') (drop 16 ((c @ [b]) @ bs)) = drop (16 * r' + 16) ((c @ [b]) @ bs)"
          by (rule drop_drop)
        moreover have "16 * r' + 16 = 16 * Suc r'" and "(c @ [b]) @ bs = c @ b # bs"
          by simp_all
        ultimately have "drop (16 * Suc r') (c @ b # bs) = drop (16 * r') (drop 16 ((c @ [b]) @ bs))"
          by (simp only:)
        also have "drop 16 ((c @ [b]) @ bs) = bs"
          using True by simp
        finally show ?thesis .
      qed
      ultimately show ?thesis
        using Suc by (simp add: rows)
    qed
    ultimately show ?thesis by blast
  next
    case False
    with Cons.prems have "length (c @ [b]) < 16" by simp
    from Cons.IH [OF this]
    have ih: "length (all_rows (c @ [b]) bs) = (length (c @ [b]) + length bs + 15) div 16
         \<and> (\<forall>r < length (all_rows (c @ [b]) bs).
               all_rows (c @ [b]) bs ! r = take 16 (drop (16 * r) ((c @ [b]) @ bs)))" .
    have eq: "all_rows (c @ [b]) bs = all_rows c (b # bs)"
      using False by (simp add: all_rows_def)
    from ih have a1: "length (all_rows c (b # bs)) = (length (c @ [b]) + length bs + 15) div 16"
      and a2: "\<And>r. r < length (all_rows c (b # bs)) \<Longrightarrow>
                 all_rows c (b # bs) ! r = take 16 (drop (16 * r) ((c @ [b]) @ bs))"
      unfolding eq by blast+
    have "length (all_rows c (b # bs)) = (length c + length (b # bs) + 15) div 16"
      using a1 by simp
    moreover have "\<forall>r < length (all_rows c (b # bs)).
                     all_rows c (b # bs) ! r = take 16 (drop (16 * r) (c @ b # bs))"
      using a2 by simp
    ultimately show ?thesis by blast
  qed
qed

lemma hex_row_length: "length (hex_row c) = 67"
  by (simp add: hex_row_def)

lemma hex_row_nth: "p < 67 \<Longrightarrow> hex_row c ! p = row_char c p"
  by (simp add: hex_row_def del: upt_Suc)

lemma hex_row_ascii:
  assumes "length c \<le> 16"
  shows "take (length c) (drop 51 (hex_row c)) = map ascii_of c"
proof (rule nth_equalityI)
  show "length (take (length c) (drop 51 (hex_row c))) = length (map ascii_of c)"
    using assms by (simp add: hex_row_length)
next
  fix j assume "j < length (take (length c) (drop 51 (hex_row c)))"
  then have j: "j < length c" by simp
  with assms have "51 + j < 67" by simp
  then have "hex_row c ! (51 + j) = row_char c (51 + j)"
    by (rule hex_row_nth)
  also have "\<dots> = ascii_of (c ! j)"
    using j by (simp add: row_char_def cells_of_def)
  finally show "take (length c) (drop 51 (hex_row c)) ! j = map ascii_of c ! j"
    using j assms by (simp add: hex_row_length)
qed

lemma hex_row_pad:
  assumes "length c \<le> 16"
  shows "drop (51 + length c) (hex_row c) = replicate (16 - length c) CHR '' ''"
proof (rule nth_equalityI)
  show "length (drop (51 + length c) (hex_row c)) = length (replicate (16 - length c) CHR '' '')"
    using assms by (simp add: hex_row_length)
next
  fix j assume "j < length (drop (51 + length c) (hex_row c))"
  then have j: "j < 16 - length c" by (simp add: hex_row_length)
  then have "51 + length c + j < 67" by simp
  then have "hex_row c ! (51 + length c + j) = row_char c (51 + length c + j)"
    by (rule hex_row_nth)
  also have "\<dots> = CHR '' ''"
    by (simp add: row_char_def cells_of_def)
  finally show "drop (51 + length c) (hex_row c) ! j = replicate (16 - length c) CHR '' '' ! j"
    using j by (simp add: hex_row_length)
qed

text \<open>
  C8. For a byte sequence of length N, \<^verbatim>\<open>bt_shell_hexdump\<close> prints exactly
  \<open>(N + 15) div 16\<close> rows, the whole part of N/16 rounded up. Each row is 67 characters and
  a newline; its last column starts at position 51, and in row \<open>r\<close> its first
  \<open>min 16 (N - 16 r)\<close> characters are the bytes of that row in order, a byte that is not
  printable shown as a dot; the rest of the column is spaces.
\<close>

theorem hexdump_rows:
  "\<exists>rows. stdout_of (events (bt_shell_hexdump buf s)) = stdout_of (events s) @ rows
     \<and> length rows = (length buf + 15) div 16
     \<and> (\<forall>r < length rows.
          length (rows ! r) = 68
          \<and> take (min 16 (length buf - 16 * r)) (drop 51 (rows ! r))
              = map (\<lambda>b. if isprint b then char_of (unat b) else CHR ''.'')
                  (take 16 (drop (16 * r) buf))
          \<and> drop (51 + min 16 (length buf - 16 * r)) (rows ! r)
              = replicate (16 - min 16 (length buf - 16 * r)) CHR '' '' @ nl)"
proof -
  let ?rows = "map (\<lambda>r. hex_row r @ nl) (all_rows [] buf)"
  have out: "stdout_of (events (bt_shell_hexdump buf s)) = stdout_of (events s) @ ?rows"
    unfolding bt_shell_hexdump_def by (rule hexdump_from_rows) simp
  have len: "length (all_rows [] buf) = (length buf + 15) div 16"
    and nth: "\<And>r. r < length (all_rows [] buf) \<Longrightarrow> all_rows [] buf ! r = take 16 (drop (16 * r) buf)"
    using all_rows_nth [of "[]" buf] by simp_all
  have asc: "map ascii_of = map (\<lambda>b. if isprint b then char_of (unat b) else CHR ''.'')"
    by (simp add: ascii_of_def fun_eq_iff)
  have row: "length (?rows ! r) = 68
          \<and> take (min 16 (length buf - 16 * r)) (drop 51 (?rows ! r))
              = map (\<lambda>b. if isprint b then char_of (unat b) else CHR ''.'')
                  (take 16 (drop (16 * r) buf))
          \<and> drop (51 + min 16 (length buf - 16 * r)) (?rows ! r)
              = replicate (16 - min 16 (length buf - 16 * r)) CHR '' '' @ nl"
    if "r < length ?rows" for r
  proof -
    let ?c = "take 16 (drop (16 * r) buf)"
    from that have r: "r < length (all_rows [] buf)" by simp
    then have row_r: "?rows ! r = hex_row ?c @ nl"
      by (simp add: nth)
    have k: "length ?c = min 16 (length buf - 16 * r)" and k16: "length ?c \<le> 16"
      by simp_all
    have "length (hex_row ?c @ nl) = 68"
      by (simp add: hex_row_length nl_def)
    moreover have "take (length ?c) (drop 51 (hex_row ?c @ nl)) = map ascii_of ?c"
    proof -
      have "drop 51 (hex_row ?c @ nl) = drop 51 (hex_row ?c) @ nl"
        by (simp add: hex_row_length)
      moreover have "length ?c \<le> length (drop 51 (hex_row ?c))"
        using k16 by (simp only: length_drop hex_row_length)
      ultimately have "take (length ?c) (drop 51 (hex_row ?c @ nl))
                         = take (length ?c) (drop 51 (hex_row ?c))"
        by simp
      then show ?thesis
        using hex_row_ascii [OF k16] by (simp only:)
    qed
    moreover have "drop (51 + length ?c) (hex_row ?c @ nl)
                     = replicate (16 - length ?c) CHR '' '' @ nl"
    proof -
      have "51 + length ?c \<le> length (hex_row ?c)"
        using k16 by (simp only: hex_row_length)
      then have "drop (51 + length ?c) (hex_row ?c @ nl) = drop (51 + length ?c) (hex_row ?c) @ nl"
        by simp
      then show ?thesis
        using hex_row_pad [OF k16] by (simp only:)
    qed
    ultimately show ?thesis
      unfolding row_r k asc by blast
  qed
  show ?thesis
    using out len row by (intro exI [of _ ?rows]) simp
qed

theorem hexdump_rows_witness:
  "\<exists>rows. stdout_of (events (bt_shell_hexdump [0x41, 0x00, 0x7f] initial)) = rows
     \<and> length rows = 1
     \<and> length (rows ! 0) = 68
     \<and> take 3 (drop 51 (rows ! 0)) = ''A..''
     \<and> drop 54 (rows ! 0) = replicate 13 CHR '' '' @ nl"
proof -
  let ?buf = "[0x41, 0x00, 0x7f :: 8 word]"
  have e: "stdout_of (events initial) = []"
    by (simp add: initial_def)
  have a: "map (\<lambda>b. if isprint b then char_of (unat b) else CHR ''.'') ?buf = ''A..''"
    by (simp add: isprint_def char_of_def bit_0)
  from hexdump_rows [of ?buf initial]
  obtain rows where r1: "stdout_of (events (bt_shell_hexdump ?buf initial)) = stdout_of (events initial) @ rows"
    and r2: "length rows = (length ?buf + 15) div 16"
    and r3: "\<forall>r < length rows.
          length (rows ! r) = 68
          \<and> take (min 16 (length ?buf - 16 * r)) (drop 51 (rows ! r))
              = map (\<lambda>b. if isprint b then char_of (unat b) else CHR ''.'')
                  (take 16 (drop (16 * r) ?buf))
          \<and> drop (51 + min 16 (length ?buf - 16 * r)) (rows ! r)
              = replicate (16 - min 16 (length ?buf - 16 * r)) CHR '' '' @ nl"
    by blast
  have len: "length rows = 1"
    using r2 by simp
  then have pos: "0 < length rows" by simp
  have "length (rows ! 0) = 68
          \<and> take (min 16 (length ?buf - 16 * 0)) (drop 51 (rows ! 0))
              = map (\<lambda>b. if isprint b then char_of (unat b) else CHR ''.'')
                  (take 16 (drop (16 * 0) ?buf))
          \<and> drop (51 + min 16 (length ?buf - 16 * 0)) (rows ! 0)
              = replicate (16 - min 16 (length ?buf - 16 * 0)) CHR '' '' @ nl"
    using r3 [rule_format, OF pos] .
  moreover have "min 16 (length ?buf - 16 * 0) = 3" and "take 16 (drop (16 * 0) ?buf) = ?buf"
    and "51 + (3 :: nat) = 54" and "16 - (3 :: nat) = 13"
    by simp_all
  ultimately have "length (rows ! 0) = 68 \<and> take 3 (drop 51 (rows ! 0)) = ''A..''
     \<and> drop 54 (rows ! 0) = replicate 13 CHR '' '' @ nl"
    by (simp only: a)
  moreover have "stdout_of (events (bt_shell_hexdump ?buf initial)) = rows"
    using r1 by (simp only: e append_Nil)
  ultimately show ?thesis
    using len by blast
qed

subsection \<open>Completion of arguments\<close>

text \<open>
  C5. What the code does on a request past column 0 where the external table declares a
  generator for the command that was typed and the generator finds nothing: both calls of
  \<^verbatim>\<open>menu_completion\<close> scan the external table, so the generator runs twice; the table
  that is passed, the built-in one in the first call, is never read.
\<close>

theorem completion_never_reads_builtins:
  "shell_completion (\<lambda>g t. []) ''x'' 8 9
      (initial\<lparr>rl_line_buffer := ''connect x'',
               menu := Some [\<lparr>cmd = ''connect'', arg = None, func = Some (External 1),
                               desc = None, gen = Some 1, disp = Some 2\<rparr>]\<rparr>)
     = Inr (None,
            initial\<lparr>rl_line_buffer := ''connect x'',
               menu := Some [\<lparr>cmd = ''connect'', arg = None, func = Some (External 1),
                               desc = None, gen = Some 1, disp = Some 2\<rparr>],
               rl_completion_display_matches_hook := Some 2,
               rl_attempted_completion_over := True,
               events := [Generator 1 ''x'', Generator 1 ''x'']\<rparr>)
   \<and> menu_completion G (Some default_menu) t c s = menu_completion G (menu s) t c s"
  by (simp add: shell_completion_def menu_completion_def rl_completion_matches_def emit_def
      initial_def)

end
